theory Spec2Isabelle
  imports Complex_Main "HOL-Library.Sublist"
begin

section \<open>Text primitives\<close>

text \<open>
  Python strings are modelled as \<^typ>\<open>string\<close>, a character being its code point; the
  model covers the code points below 256. \<open>len\<close> counts characters. Python's \<open>a in b\<close> on
  strings is \<^const>\<open>sublist\<close>.

  \<open>str.isspace\<close>, which \<open>strip\<close>, \<open>split\<close> and the class \<open>\s\<close> of \<open>re\<close> follow, holds below
  256 of the ASCII white space, of the separators U+001C to U+001F, and of U+0085 and
  U+00A0.
\<close>

definition is_space :: "char \<Rightarrow> bool" where
  "is_space c = (c \<in> set [CHR 0x09, CHR 0x0A, CHR 0x0B, CHR 0x0C, CHR 0x0D,
                            CHR 0x1C, CHR 0x1D, CHR 0x1E, CHR 0x1F, CHR 0x20,
                            CHR 0x85, CHR 0xA0])"

text \<open>The letters of U+00C0 to U+00DE (all but the sign U+00D7) and, 32 code points
  higher, their lower-case forms.\<close>

definition latin1_upper :: string where
  "latin1_upper =
     [CHR 0xC0, CHR 0xC1, CHR 0xC2, CHR 0xC3, CHR 0xC4, CHR 0xC5, CHR 0xC6, CHR 0xC7,
      CHR 0xC8, CHR 0xC9, CHR 0xCA, CHR 0xCB, CHR 0xCC, CHR 0xCD, CHR 0xCE, CHR 0xCF,
      CHR 0xD0, CHR 0xD1, CHR 0xD2, CHR 0xD3, CHR 0xD4, CHR 0xD5, CHR 0xD6, CHR 0xD8,
      CHR 0xD9, CHR 0xDA, CHR 0xDB, CHR 0xDC, CHR 0xDD, CHR 0xDE]"

definition latin1_lower :: string where
  "latin1_lower =
     [CHR 0xE0, CHR 0xE1, CHR 0xE2, CHR 0xE3, CHR 0xE4, CHR 0xE5, CHR 0xE6, CHR 0xE7,
      CHR 0xE8, CHR 0xE9, CHR 0xEA, CHR 0xEB, CHR 0xEC, CHR 0xED, CHR 0xEE, CHR 0xEF,
      CHR 0xF0, CHR 0xF1, CHR 0xF2, CHR 0xF3, CHR 0xF4, CHR 0xF5, CHR 0xF6, CHR 0xF8,
      CHR 0xF9, CHR 0xFA, CHR 0xFB, CHR 0xFC, CHR 0xFD, CHR 0xFE]"

definition lower_char :: "char \<Rightarrow> char" where
  "lower_char c =
     (case map_of (zip (''ABCDEFGHIJKLMNOPQRSTUVWXYZ'' @ latin1_upper)
                       (''abcdefghijklmnopqrstuvwxyz'' @ latin1_lower)) c of
        Some d \<Rightarrow> d
      | None \<Rightarrow> c)"

text \<open>\<open>str.upper\<close> takes three characters below 256 out of that range: U+00B5 (to U+039C),
  U+00DF (to \<open>SS\<close>) and U+00FF (to U+0178). The model leaves them as they are. Its one use,
  the tests of \<open>_generate_sql\<close> for the word \<open>INVALID\<close> inside and \<open>SELECT\<close> in front of the
  upper-cased text, comes out the same.\<close>

definition upper_char :: "char \<Rightarrow> char" where
  "upper_char c =
     (case map_of (zip (''abcdefghijklmnopqrstuvwxyz'' @ latin1_lower)
                       (''ABCDEFGHIJKLMNOPQRSTUVWXYZ'' @ latin1_upper)) c of
        Some d \<Rightarrow> d
      | None \<Rightarrow> c)"

definition lower :: "string \<Rightarrow> string" where
  "lower s = map lower_char s"

definition upper :: "string \<Rightarrow> string" where
  "upper s = map upper_char s"

definition strip :: "string \<Rightarrow> string" where
  "strip s = rev (dropWhile is_space (rev (dropWhile is_space s)))"

text \<open>\<open>s.split()\<close>: the maximal runs of non-whitespace characters, in order. The first
  argument holds the word being read, reversed.\<close>

fun split_from :: "string \<Rightarrow> string \<Rightarrow> string list" where
  "split_from cur [] = (if cur = [] then [] else [rev cur])"
| "split_from cur (c # cs) =
     (if is_space c
      then (if cur = [] then split_from [] cs else rev cur # split_from [] cs)
      else split_from (c # cur) cs)"

definition split :: "string \<Rightarrow> string list" where
  "split s = split_from [] s"

fun join :: "string \<Rightarrow> string list \<Rightarrow> string" where
  "join sep [] = []"
| "join sep [x] = x"
| "join sep (x # y # ys) = x @ sep @ join sep (y # ys)"

section \<open>Response cache (database/faq\_cache.py)\<close>

text \<open>
  The \<open>faq_cache\<close> table is the list of its rows in rowid order, together with the
  AUTOINCREMENT counter. Time points are integers (microseconds). Two clocks are read by
  the code and both are inputs of the model: \<open>datetime.now()\<close> of the Python process
  (\<open>py_now\<close>), which is the local time of the process without a zone, and SQLite's
  \<open>CURRENT_TIMESTAMP\<close> (\<open>db_now\<close>), which is UTC in whole seconds.
  The digest \<open>hashlib.sha256(...).hexdigest()[:32]\<close> is the parameter \<open>sha256_hex32\<close>.
\<close>

record cache_row =
  row_id :: int
  query_hash :: string
  query :: string
  response :: string
  hit_count :: int
  created_at :: int
  last_accessed :: int

record faq_table =
  rows :: "cache_row list"
  seq :: int

record FAQCache =
  sha256_hex32 :: "string \<Rightarrow> string"
  ttl_hours :: int
  max_size :: int

definition empty_table :: faq_table where
  "empty_table = \<lparr>rows = [], seq = 0\<rparr>"

definition timedelta_hours :: "int \<Rightarrow> int" where
  "timedelta_hours h = h * 3600000000"

text \<open>What \<open>datetime.now()\<close> reads at an instant (given in UTC) in a process whose time
  zone is \<open>utc_offset\<close> ahead of UTC.\<close>

definition local_now :: "int \<Rightarrow> int \<Rightarrow> int" where
  "local_now utc_offset instant = instant + utc_offset"

definition normalize_query :: "string \<Rightarrow> string" where
  "normalize_query q = join '' '' (split (strip (lower q)))"

definition hash_query :: "FAQCache \<Rightarrow> string \<Rightarrow> string" where
  "hash_query c q = sha256_hex32 c (normalize_query q)"

definition touch :: "int \<Rightarrow> cache_row \<Rightarrow> cache_row" where
  "touch db_now r = r\<lparr>hit_count := hit_count r + 1, last_accessed := db_now\<rparr>"

definition FAQCache_get ::
  "FAQCache \<Rightarrow> faq_table \<Rightarrow> string \<Rightarrow> int \<Rightarrow> int \<Rightarrow> string option \<times> faq_table" where
  "FAQCache_get c t q py_now db_now =
     (let h = hash_query c q;
          ttl_cutoff = py_now - timedelta_hours (ttl_hours c)
      in case find (\<lambda>r. query_hash r = h \<and> created_at r > ttl_cutoff) (rows t) of
           Some r \<Rightarrow>
             (Some (response r),
              t\<lparr>rows := map (\<lambda>x. if query_hash x = h then touch db_now x else x) (rows t)\<rparr>)
         | None \<Rightarrow> (None, t))"

text \<open>\<open>ORDER BY last_accessed ASC LIMIT excess\<close>: SQLite leaves the order among equal
  keys open; the model takes rowid order among them (a stable sort).\<close>

definition cleanup_victims :: "int \<Rightarrow> cache_row list \<Rightarrow> int list" where
  "cleanup_victims excess rs = map row_id (take (nat excess) (sort_key last_accessed rs))"

definition cleanup_if_needed :: "FAQCache \<Rightarrow> faq_table \<Rightarrow> faq_table" where
  "cleanup_if_needed c t =
     (let count = int (length (rows t)) in
      if count > max_size c
      then (let excess = count - max_size c
            in t\<lparr>rows := filter (\<lambda>r. row_id r \<notin> set (cleanup_victims excess (rows t))) (rows t)\<rparr>)
      else t)"

text \<open>The row an INSERT creates: \<open>hit_count\<close>, \<open>created_at\<close> and \<open>last_accessed\<close> take
  their column defaults.\<close>

definition new_row :: "int \<Rightarrow> string \<Rightarrow> string \<Rightarrow> string \<Rightarrow> int \<Rightarrow> cache_row" where
  "new_row i h q resp db_now =
     \<lparr>row_id = i, query_hash = h, query = q, response = resp, hit_count = 1,
      created_at = db_now, last_accessed = db_now\<rparr>"

text \<open>\<open>INSERT ... ON CONFLICT(query_hash) DO UPDATE SET response = excluded.response,
  hit_count = hit_count + 1, last_accessed = CURRENT_TIMESTAMP\<close>. SQLite draws the new
  rowid before it meets the conflict, so the AUTOINCREMENT counter advances on both
  paths.\<close>

definition upsert :: "FAQCache \<Rightarrow> faq_table \<Rightarrow> string \<Rightarrow> string \<Rightarrow> int \<Rightarrow> faq_table" where
  "upsert c t q resp db_now =
     (let h = hash_query c q in
      if h \<in> set (map query_hash (rows t))
      then t\<lparr>rows := map (\<lambda>x. if query_hash x = h
                                then (touch db_now x)\<lparr>response := resp\<rparr> else x) (rows t),
             seq := seq t + 1\<rparr>
      else t\<lparr>rows := rows t @ [new_row (seq t + 1) h q resp db_now], seq := seq t + 1\<rparr>)"

definition FAQCache_set :: "FAQCache \<Rightarrow> faq_table \<Rightarrow> string \<Rightarrow> string \<Rightarrow> int \<Rightarrow> faq_table" where
  "FAQCache_set c t q resp db_now = cleanup_if_needed c (upsert c t q resp db_now)"

text \<open>\<open>invalidate(query)\<close>: one entry, or the whole table when the argument is \<open>None\<close> or
  the empty string. Returns \<open>rowcount\<close>.\<close>

definition FAQCache_invalidate :: "FAQCache \<Rightarrow> faq_table \<Rightarrow> string option \<Rightarrow> int \<times> faq_table" where
  "FAQCache_invalidate c t q =
     (let kept = (case q of
                    Some s \<Rightarrow> if s \<noteq> [] then filter (\<lambda>r. query_hash r \<noteq> hash_query c s) (rows t)
                              else []
                  | None \<Rightarrow> [])
      in (int (length (rows t)) - int (length kept), t\<lparr>rows := kept\<rparr>))"

datatype cache_op =
    OpGet string int int
  | OpSet string string int
  | OpInvalidate "string option"

fun cache_step :: "FAQCache \<Rightarrow> faq_table \<Rightarrow> cache_op \<Rightarrow> faq_table" where
  "cache_step c t (OpGet q py_now db_now) = snd (FAQCache_get c t q py_now db_now)"
| "cache_step c t (OpSet q resp db_now) = FAQCache_set c t q resp db_now"
| "cache_step c t (OpInvalidate q) = snd (FAQCache_invalidate c t q)"

text \<open>A run of \<open>set\<close> calls, each given as (query, response, \<open>db_now\<close>).\<close>

definition set_all :: "FAQCache \<Rightarrow> faq_table \<Rightarrow> (string \<times> string \<times> int) list \<Rightarrow> faq_table" where
  "set_all c t xs = foldl (\<lambda>t' (q, resp, db_now). FAQCache_set c t' q resp db_now) t xs"

definition cache_run :: "FAQCache \<Rightarrow> faq_table \<Rightarrow> cache_op list \<Rightarrow> faq_table" where
  "cache_run c t ops = foldl (cache_step c) t ops"

text \<open>Well-formed tables: what the PRIMARY KEY, the UNIQUE constraint on \<open>query_hash\<close> and
  the AUTOINCREMENT counter guarantee.\<close>

definition table_wf :: "faq_table \<Rightarrow> bool" where
  "table_wf t \<longleftrightarrow>
     distinct (map row_id (rows t)) \<and>
     distinct (map query_hash (rows t)) \<and>
     list_all (\<lambda>r. row_id r \<le> seq t) (rows t)"

subsection \<open>Sample configuration and tables\<close>

definition demo_cache :: FAQCache where
  "demo_cache = \<lparr>sha256_hex32 = (\<lambda>s. s), ttl_hours = 24, max_size = 2\<rparr>"

definition demo_table :: faq_table where
  "demo_table = \<lparr>rows = [new_row 1 ''a'' ''a'' ''ra'' 10, new_row 2 ''b'' ''b'' ''rb'' 5], seq = 2\<rparr>"

definition demo_inserts :: "(string \<times> string \<times> int) list" where
  "demo_inserts = [(''q1'', ''r1'', 1), (''q2'', ''r2'', 2), (''q3'', ''r3'', 3), (''q4'', ''r4'', 4),
                   (''q5'', ''r5'', 5), (''q6'', ''r6'', 6), (''q7'', ''r7'', 7)]"

section \<open>Generation provider adapter (core/llm.py)\<close>

text \<open>
  The generation provider is an input of the model: a function of the number of requests
  sent so far, the prompt and the temperature, giving the text of the response (\<open>Inr\<close>) or
  the text \<open>str(e)\<close> of the exception raised (\<open>Inl\<close>). The state counts the calls of
  \<open>generate\<close> and logs the requests sent to the provider and the arguments of
  \<open>time.sleep\<close>. No caller in the repository passes \<open>system_instruction\<close>.
\<close>

definition dq :: string where
  "dq = [CHR 0x22]"

definition sq :: string where
  "sq = [CHR 0x27]"

definition is_rate_limit :: "string \<Rightarrow> bool" where
  "is_rate_limit err = (sublist ''429'' err \<or> sublist ''RESOURCE_EXHAUSTED'' err)"

type_synonym gen_provider = "nat \<Rightarrow> string \<Rightarrow> rat \<Rightarrow> string + string"

record llm_state =
  generate_calls :: nat
  requests :: "(string \<times> rat) list"
  sleeps :: "int list"

record LLMClient =
  provider :: gen_provider
  max_context :: int

definition llm_state0 :: llm_state where
  "llm_state0 = \<lparr>generate_calls = 0, requests = [], sleeps = []\<rparr>"

text \<open>\<open>_call_with_retry\<close>: the loop \<open>for attempt in range(max_retries)\<close>, from \<open>attempt\<close> on.
  A loop that runs out returns \<open>None\<close>.\<close>

function call_with_retry ::
  "gen_provider \<Rightarrow> nat \<Rightarrow> nat \<Rightarrow> string \<Rightarrow> rat \<Rightarrow> llm_state \<Rightarrow> (string + string option) \<times> llm_state"
  where
  "call_with_retry prov max_retries attempt prompt temperature st =
     (if attempt < max_retries
      then (let st1 = st\<lparr>requests := requests st @ [(prompt, temperature)]\<rparr> in
            case prov (length (requests st)) prompt temperature of
              Inr text \<Rightarrow> (Inr (Some text), st1)
            | Inl err \<Rightarrow>
                if is_rate_limit err \<and> int attempt < int max_retries - 1
                then call_with_retry prov max_retries (attempt + 1) prompt temperature
                       (st1\<lparr>sleeps := sleeps st1 @ [15 * (int attempt + 1)]\<rparr>)
                else (Inl err, st1))
      else (Inr None, st))"
  by pat_completeness auto
termination
  by (relation "measure (\<lambda>(prov, max_retries, attempt, rest). max_retries - attempt)") auto

declare call_with_retry.simps [simp del]

definition apology :: "string \<Rightarrow> string" where
  "apology err = ''I apologize, but I encountered an error: '' @ err"

definition none_has_no_text :: string where
  "none_has_no_text = sq @ ''NoneType'' @ sq @ '' object has no attribute '' @ sq @ ''text'' @ sq"

definition LLMClient_generate :: "LLMClient \<Rightarrow> string \<Rightarrow> rat \<Rightarrow> llm_state \<Rightarrow> string \<times> llm_state" where
  "LLMClient_generate llm prompt temperature st =
     (case call_with_retry (provider llm) 3 0 prompt temperature
             (st\<lparr>generate_calls := generate_calls st + 1\<rparr>) of
        (Inr (Some text), st') \<Rightarrow> (text, st')
      | (Inr None, st') \<Rightarrow> (apology none_has_no_text, st')
      | (Inl err, st') \<Rightarrow> (apology err, st'))"

text \<open>Decimal numerals, as an f-string prints an \<open>int\<close>.\<close>

definition digit_char :: "nat \<Rightarrow> char" where
  "digit_char n = ''0123456789'' ! (n mod 10)"

function str_nat :: "nat \<Rightarrow> string" where
  "str_nat n = (if n < 10 then [digit_char n] else str_nat (n div 10) @ [digit_char n])"
  by pat_completeness auto
termination
  by (relation "measure (\<lambda>n. n)") auto

text \<open>Python slices \<open>xs[:n]\<close> and \<open>xs[n:]\<close> for any integer \<open>n\<close>.\<close>

definition py_prefix :: "int \<Rightarrow> 'a list \<Rightarrow> 'a list" where
  "py_prefix n xs = (if 0 \<le> n then take (nat n) xs else take (nat (int (length xs) + n)) xs)"

definition py_suffix :: "int \<Rightarrow> 'a list \<Rightarrow> 'a list" where
  "py_suffix n xs = (if 0 \<le> n then drop (nat n) xs else drop (nat (int (length xs) + n)) xs)"

record session_turn =
  turn_user :: string
  turn_assistant :: string
  turn_timestamp :: int

definition default_university_prompt :: string where
  "default_university_prompt =
     ''You are a helpful AI assistant for university students and staff.\<newline>'' @
     ''Your role is to answer questions about university policies, procedures, '' @
     ''academic programs, \<newline>'' @
     ''and administrative matters using the provided reference information.\<newline>'' @
     ''\<newline>'' @
     ''Guidelines:\<newline>'' @
     ''- Be accurate and base your answers on the provided references\<newline>'' @
     ''- Be friendly and professional in your tone\<newline>'' @
     ''- If information is not in the references, say so clearly\<newline>'' @
     ''- Provide specific details like dates, requirements, and procedures when '' @
     ''available\<newline>'' @
     ''- For complex procedures, break down steps clearly\<newline>'' @
     ''- Do not invent or assume information not present in the references''"

definition reference_block :: "string list \<Rightarrow> string" where
  "reference_block context_passages =
     join ''\<newline>\<newline>''
       (map (\<lambda>(i, passage). ''[Reference '' @ str_nat (i + 1) @ '']: '' @ passage)
            (enumerate 0 context_passages))"

definition history_block :: "session_turn list \<Rightarrow> string" where
  "history_block conversation_history =
     concat (map (\<lambda>turn. ''User: '' @ turn_user turn @ ''\<newline>'' @
                          ''Assistant: '' @ turn_assistant turn @ ''\<newline>\<newline>'')
                 (py_suffix (- 5) conversation_history))"

definition assemble_prompt :: "string \<Rightarrow> string list \<Rightarrow> session_turn list \<Rightarrow> string \<Rightarrow> string" where
  "assemble_prompt system_prompt context_passages conversation_history query_text =
     (let context = reference_block context_passages;
          history_text = history_block conversation_history
      in ''\<newline>'' @ system_prompt @
         ''\<newline>\<newline>REFERENCE INFORMATION:\<newline>'' @ context @
         ''\<newline>\<newline>'' @
         (if history_text \<noteq> [] then ''PREVIOUS CONVERSATION:'' else []) @
         ''\<newline>'' @ history_text @
         ''\<newline>\<newline>USER QUESTION: '' @ query_text @
         ''\<newline>\<newline>Provide a helpful, accurate response based on the reference information above.\<newline>'')"

definition truncation_marker :: string where
  "truncation_marker = ''\<newline>[Context truncated due to length]''"

definition truncate_prompt :: "int \<Rightarrow> string \<Rightarrow> string" where
  "truncate_prompt budget prompt =
     (if int (length prompt) > budget then py_prefix budget prompt @ truncation_marker else prompt)"

definition LLMClient_generate_with_context ::
  "LLMClient \<Rightarrow> string \<Rightarrow> string list \<Rightarrow> session_turn list \<Rightarrow> string option \<Rightarrow> llm_state
     \<Rightarrow> string \<times> llm_state" where
  "LLMClient_generate_with_context llm query_text context_passages conversation_history system_prompt st =
     (let sp = (case system_prompt of None \<Rightarrow> default_university_prompt | Some p \<Rightarrow> p);
          prompt = assemble_prompt sp context_passages conversation_history query_text
      in LLMClient_generate llm (truncate_prompt (max_context llm) prompt) (7 / 10) st)"

subsection \<open>Regular expressions of the intent router\<close>

text \<open>
  The two greeting patterns use literals, character classes, alternation, \<open>?\<close> and \<open>*\<close>
  only, so whether \<open>re.match\<close> finds a match is membership in a regular language, decided
  here with derivatives. Under \<open>re.IGNORECASE\<close> a literal letter matches both cases.
  \<open>$\<close> matches at the end of the string and before a final newline.
\<close>

datatype rx =
    Zero
  | One
  | Atom "char \<Rightarrow> bool"
  | Alt rx rx
  | Seq rx rx
  | Star rx

fun nullable :: "rx \<Rightarrow> bool" where
  "nullable Zero = False"
| "nullable One = True"
| "nullable (Atom p) = False"
| "nullable (Alt a b) = (nullable a \<or> nullable b)"
| "nullable (Seq a b) = (nullable a \<and> nullable b)"
| "nullable (Star a) = True"

fun deriv :: "char \<Rightarrow> rx \<Rightarrow> rx" where
  "deriv c Zero = Zero"
| "deriv c One = Zero"
| "deriv c (Atom p) = (if p c then One else Zero)"
| "deriv c (Alt a b) = Alt (deriv c a) (deriv c b)"
| "deriv c (Seq a b) =
     (if nullable a then Alt (Seq (deriv c a) b) (deriv c b) else Seq (deriv c a) b)"
| "deriv c (Star a) = Seq (deriv c a) (Star a)"

definition rx_full :: "rx \<Rightarrow> string \<Rightarrow> bool" where
  "rx_full r s = nullable (foldl (\<lambda>r' c. deriv c r') r s)"

definition re_match :: "rx \<Rightarrow> string \<Rightarrow> bool" where
  "re_match r s = (rx_full r s \<or> (s \<noteq> [] \<and> last s = CHR 0x0A \<and> rx_full r (butlast s)))"

definition lit :: "char \<Rightarrow> rx" where
  "lit c = Atom (\<lambda>x. lower_char x = lower_char c)"

definition word :: "string \<Rightarrow> rx" where
  "word w = foldr (\<lambda>c r. Seq (lit c) r) w One"

definition alts :: "rx list \<Rightarrow> rx" where
  "alts rs = foldr Alt rs Zero"

definition seqs :: "rx list \<Rightarrow> rx" where
  "seqs rs = foldr Seq rs One"

definition opt :: "rx \<Rightarrow> rx" where
  "opt r = Alt One r"

definition ws :: rx where
  "ws = Star (Atom is_space)"

definition punct :: rx where
  "punct = Star (Atom (\<lambda>x. x \<in> set ''!?.''))"

text \<open>The alternatives shared by both patterns, in the order of the source.\<close>

definition greeting_words_1 :: "rx list" where
  "greeting_words_1 =
     [word ''hi'', word ''hello'', word ''hey'', word ''bonjour'', word ''salut'', word ''salam'',
      word ''bonsoir'',
      seqs [word ''good'', ws, alts [word ''morning'', word ''afternoon'', word ''evening'']],
      seqs [word ''how'', ws, word ''are'', ws, word ''you''],
      seqs [word ''what'', opt (lit (CHR 0x27)), opt (lit CHR ''s''), ws, word ''up''],
      word ''yo'', word ''thanks'', seqs [word ''thank'', ws, word ''you''], word ''merci'',
      word ''bye'', word ''goodbye'', seqs [word ''au'', ws, word ''revoir'']]"

definition greeting_words_2 :: "rx list" where
  "greeting_words_2 = [word ''aidez'', seqs [word ''comment'', ws, word ''vas'']]"

text \<open>\<open>_greeting_re\<close> of \<open>classify_intent\<close>.\<close>

definition greeting_re :: rx where
  "greeting_re = seqs [alts (greeting_words_1 @ greeting_words_2), ws, punct]"

text \<open>\<open>_GREETING_PATTERNS\<close> of the orchestrator: leading and trailing whitespace, and
  \<open>help\<close> among the alternatives.\<close>

definition GREETING_PATTERNS :: rx where
  "GREETING_PATTERNS =
     seqs [ws, alts (greeting_words_1 @ [word ''help''] @ greeting_words_2), ws, punct, ws]"

subsection \<open>Intent classification\<close>

definition admin_kw :: "string list" where
  "admin_kw = [''student data'', ''system metric'', ''all users'', ''manage document'']"

definition valid_intents :: "string list" where
  "valid_intents = [''qa'', ''admin'', ''general'']"

definition classify_prompt :: "string \<Rightarrow> string" where
  "classify_prompt q =
     ''Classify the following user query into one of these categories:\<newline>'' @
     ''- qa: Questions about university policies, procedures, academics, administration\<newline>'' @
     ''- admin: Administrative queries about student data, system metrics (staff '' @
     ''only)\<newline>'' @
     ''- general: General greetings, off-topic, or unclear queries\<newline>'' @
     ''\<newline>'' @
     ''Query: '' @
     dq @ q @
     dq @
     ''\<newline>'' @
     ''\<newline>'' @
     ''Respond with ONLY the category name (qa, admin, or general):''"

definition LLMClient_classify_intent :: "LLMClient \<Rightarrow> string \<Rightarrow> llm_state \<Rightarrow> string \<times> llm_state" where
  "LLMClient_classify_intent llm query_text st =
     (let q = strip query_text in
      if re_match greeting_re q then (''general'', st)
      else if list_ex (\<lambda>kw. sublist kw (lower q)) admin_kw then (''admin'', st)
      else (case LLMClient_generate llm (classify_prompt q) (1 / 10) st of
              (response_text, st') \<Rightarrow>
                (let intent = lower (strip response_text)
                 in (if intent \<in> set valid_intents then intent else ''qa'', st'))))"

subsection \<open>Sample providers\<close>

definition maybe_llm :: LLMClient where
  "maybe_llm = \<lparr>provider = (\<lambda>n p t. Inr '' Maybe ''), max_context = 8000\<rparr>"

definition busy_llm :: LLMClient where
  "busy_llm = \<lparr>provider = (\<lambda>n p t. if n < 1 then Inl ''429 quota'' else Inr ''ADMIN ''),
                max_context = 8000\<rparr>"

definition tiny_llm :: LLMClient where
  "tiny_llm = \<lparr>provider = (\<lambda>n p t. Inr ''ok''), max_context = 100\<rparr>"

definition six_turns :: "session_turn list" where
  "six_turns =
     [\<lparr>turn_user = ''u1'', turn_assistant = ''a1'', turn_timestamp = 1\<rparr>,
      \<lparr>turn_user = ''u2'', turn_assistant = ''a2'', turn_timestamp = 2\<rparr>,
      \<lparr>turn_user = ''u3'', turn_assistant = ''a3'', turn_timestamp = 3\<rparr>,
      \<lparr>turn_user = ''u4'', turn_assistant = ''a4'', turn_timestamp = 4\<rparr>,
      \<lparr>turn_user = ''u5'', turn_assistant = ''a5'', turn_timestamp = 5\<rparr>,
      \<lparr>turn_user = ''u6'', turn_assistant = ''a6'', turn_timestamp = 6\<rparr>]"

section \<open>Embedding provider adapters\<close>

text \<open>
  The embedding provider is an input of the model: a function of the number of requests
  sent so far and the text, giving the vector (\<open>Inr\<close>) or the text of the exception raised
  (\<open>Inl\<close>). Vector components are rationals; the adapters only pass them on. The state
  logs the requests and the arguments of \<open>time.sleep\<close>.
\<close>

type_synonym embed_provider = "nat \<Rightarrow> string \<Rightarrow> string + rat list"

record embed_state =
  embed_requests :: "string list"
  embed_sleeps :: "int list"

definition embed_state0 :: embed_state where
  "embed_state0 = \<lparr>embed_requests = [], embed_sleeps = []\<rparr>"

subsection \<open>GeminiEmbeddingFunction.py (document ingestion)\<close>

text \<open>\<open>_embed_with_retry\<close>: the loop \<open>for attempt in range(max_retries)\<close>, from \<open>attempt\<close> on;
  \<open>None\<close> is the value for a text given up.\<close>

function embed_with_retry ::
  "embed_provider \<Rightarrow> nat \<Rightarrow> nat \<Rightarrow> string \<Rightarrow> embed_state \<Rightarrow> rat list option \<times> embed_state"
  where
  "embed_with_retry prov max_retries attempt txt st =
     (if attempt < max_retries
      then (let st1 = st\<lparr>embed_requests := embed_requests st @ [txt]\<rparr> in
            case prov (length (embed_requests st)) txt of
              Inr values \<Rightarrow> (Some values, st1)
            | Inl err \<Rightarrow>
                if is_rate_limit err
                then embed_with_retry prov max_retries (attempt + 1) txt
                       (st1\<lparr>embed_sleeps := embed_sleeps st1 @ [30 * (int attempt + 1)]\<rparr>)
                else (None, st1))
      else (None, st))"
  by pat_completeness auto
termination
  by (relation "measure (\<lambda>(prov, max_retries, attempt, rest). max_retries - attempt)") auto

declare embed_with_retry.simps [simp del]

fun embed_each ::
  "embed_provider \<Rightarrow> string list \<Rightarrow> embed_state \<Rightarrow> rat list option list \<times> embed_state" where
  "embed_each prov [] st = ([], st)"
| "embed_each prov (txt # rest) st =
     (case embed_with_retry prov 5 0 txt st of
        (embedding, st1) \<Rightarrow>
          (case embed_each prov rest st1 of
             (embeddings, st2) \<Rightarrow> (embedding # embeddings, st2)))"

text \<open>\<open>__call__\<close>: \<open>Inl\<close> is the \<open>RuntimeError\<close> raised when a text was given up.\<close>

definition GeminiEmbeddingFunction_call ::
  "embed_provider \<Rightarrow> string list \<Rightarrow> embed_state \<Rightarrow> (string + rat list list) \<times> embed_state" where
  "GeminiEmbeddingFunction_call prov input st =
     (case embed_each prov input st of
        (embeddings, st') \<Rightarrow>
          (if list_ex (\<lambda>e. e = None) embeddings
           then (Inl ''Some embeddings failed. Please retry.'', st')
           else (Inr (map the embeddings), st')))"

subsection \<open>core/embeddings.py (retrieval pipeline)\<close>

definition embedding_dim :: nat where
  "embedding_dim = 768"

fun GeminiEmbeddings_call ::
  "embed_provider \<Rightarrow> string list \<Rightarrow> embed_state \<Rightarrow> rat list list \<times> embed_state" where
  "GeminiEmbeddings_call prov [] st = ([], st)"
| "GeminiEmbeddings_call prov (txt # rest) st =
     (let st1 = st\<lparr>embed_requests := embed_requests st @ [txt]\<rparr>;
          v = (case prov (length (embed_requests st)) txt of
                 Inr values \<Rightarrow> values
               | Inl err \<Rightarrow> replicate embedding_dim 0)
      in case GeminiEmbeddings_call prov rest st1 of
           (embeddings, st2) \<Rightarrow> (v # embeddings, st2))"

definition always_rate_limited :: embed_provider where
  "always_rate_limited = (\<lambda>n txt. Inl ''429 RESOURCE_EXHAUSTED'')"

definition always_broken :: embed_provider where
  "always_broken = (\<lambda>n txt. Inl ''500 internal error'')"

text \<open>A provider that fails on the text \<open>bad\<close> only, and one that limits the first two
  requests and breaks on the third.\<close>

definition bad_only :: embed_provider where
  "bad_only = (\<lambda>n txt. if txt = ''bad'' then Inl ''500 internal error'' else Inr [1])"

definition limited_then_broken :: embed_provider where
  "limited_then_broken =
     (\<lambda>n txt. if n < 2 then Inl ''429 RESOURCE_EXHAUSTED'' else Inl ''500 internal error'')"

section \<open>Vector index access (core/vector\_store.py)\<close>

text \<open>
  The Chroma collection is an input of the model. A call either raises before the \<open>try\<close>
  block of \<open>VectorStore.query\<close> is entered (\<open>get_embedding_function\<close>, the one statement
  in front of it), raises inside the block (opening the collection on first use, or
  \<open>collection.query\<close> itself), or returns its result, whose four fields hold one list per
  query text. A metadata dictionary is an association list.
\<close>

datatype meta_value = MStr string | MInt int

type_synonym metadata = "(string \<times> meta_value) list"

record raw_result =
  raw_documents :: "string list list"
  raw_metadatas :: "metadata option list list"
  raw_distances :: "rat list list"
  raw_ids :: "string list list"

datatype chroma_outcome =
    SetupError string
  | QueryError string
  | QueryResult "raw_result option"

type_synonym chroma = "string \<Rightarrow> int \<Rightarrow> (string \<times> string) list \<Rightarrow> chroma_outcome"

record retrieval =
  documents :: "string list"
  metadatas :: "metadata option list"
  distances :: "rat list"
  ids :: "string list"

definition empty_retrieval :: retrieval where
  "empty_retrieval = \<lparr>documents = [], metadatas = [], distances = [], ids = []\<rparr>"

definition first_or_empty :: "'a list list \<Rightarrow> 'a list" where
  "first_or_empty xss = (case xss of [] \<Rightarrow> [] | xs # rest \<Rightarrow> xs)"

text \<open>\<open>VectorStore.query\<close>; \<open>Inl\<close> is an exception that reaches the caller. The filter
  \<open>where\<close> is the list of its entries, empty for \<open>None\<close>.\<close>

definition VectorStore_query ::
  "chroma \<Rightarrow> string \<Rightarrow> int \<Rightarrow> (string \<times> string) list \<Rightarrow> string + retrieval" where
  "VectorStore_query collection query_text n_results where_filter =
     (case collection query_text n_results where_filter of
        SetupError e \<Rightarrow> Inl e
      | QueryError e \<Rightarrow> Inr empty_retrieval
      | QueryResult None \<Rightarrow> Inr empty_retrieval
      | QueryResult (Some results) \<Rightarrow>
          Inr \<lparr>documents = first_or_empty (raw_documents results),
               metadatas = first_or_empty (raw_metadatas results),
               distances = first_or_empty (raw_distances results),
               ids = first_or_empty (raw_ids results)\<rparr>)"

definition truthy :: "string option \<Rightarrow> bool" where
  "truthy v = (case v of None \<Rightarrow> False | Some s \<Rightarrow> s \<noteq> [])"

definition VectorStore_query_with_filter ::
  "chroma \<Rightarrow> string \<Rightarrow> string option \<Rightarrow> string option \<Rightarrow> int \<Rightarrow> string + retrieval" where
  "VectorStore_query_with_filter collection query_text doc_type source_file n_results =
     VectorStore_query collection query_text n_results
       ((if truthy doc_type then [(''document_type'', the doc_type)] else []) @
        (if truthy source_file then [(''source'', the source_file)] else []))"

section \<open>Retrieval agent (agents/qa\_agent.py)\<close>

record source_info =
  src_file :: meta_value
  src_document_type :: meta_value
  src_page :: "meta_value option"

datatype response_metadata =
    NoMetadata
  | QAMetadata nat "rat list"
  | GeneralMetadata

text \<open>The dictionary an agent returns, with the four keys the orchestrator reads; \<open>None\<close>
  is an absent key.\<close>

record agent_response =
  answer :: "string option"
  sources :: "source_info list option"
  context_chunks :: "string list option"
  metadata :: "response_metadata option"

record QAAgent =
  collection :: chroma
  top_k :: int

definition qa_system_prompt :: string where
  "qa_system_prompt =
     ''You are an expert university administrative assistant with deep knowledge '' @
     ''of academic policies, procedures, and student services.\<newline>'' @
     ''\<newline>'' @
     ''Your role is to:\<newline>'' @
     ''1. Answer questions accurately based on the provided reference documents\<newline>'' @
     ''2. Provide clear, step-by-step guidance for procedures\<newline>'' @
     ''3. Include specific details like deadlines, requirements, and contact '' @
     ''information when available\<newline>'' @
     ''4. Be sympathetic to student concerns while maintaining professionalism\<newline>'' @
     ''5. Redirect to appropriate offices when questions are beyond your knowledge\<newline>'' @
     ''\<newline>'' @
     ''Guidelines:\<newline>'' @
     ''- Base answers ONLY on the provided reference passages\<newline>'' @
     ''- If information is incomplete, acknowledge what you know and what'' @
     sq @
     ''s unclear\<newline>'' @
     ''- Never invent policies or procedures\<newline>'' @
     ''- Use a friendly, helpful tone\<newline>'' @
     ''- For complex procedures, use numbered steps\<newline>'' @
     ''- Include relevant deadlines or timeframes when mentioned in references''"

definition no_context_prefix :: string where
  "no_context_prefix =
     ''I apologize, but I couldn'' @
     sq @
     ''t find specific information about '' @
     dq"

definition no_context_suffix :: string where
  "no_context_suffix =
     dq @
     '' in our university documents.\<newline>'' @
     ''\<newline>'' @
     ''Here are some suggestions:\<newline>'' @
     ''1. Try rephrasing your question with different keywords\<newline>'' @
     ''2. Contact the relevant administrative office directly\<newline>'' @
     ''3. Check the university website for the most up-to-date information\<newline>'' @
     ''\<newline>'' @
     ''Is there something else I can help you with?''"

definition no_context_response :: "string \<Rightarrow> string" where
  "no_context_response query_text = no_context_prefix @ query_text @ no_context_suffix"

text \<open>\<open>_extract_sources\<close>: the first argument is \<open>seen_sources\<close>.\<close>

fun extract_sources_from :: "meta_value list \<Rightarrow> metadata option list \<Rightarrow> source_info list" where
  "extract_sources_from seen [] = []"
| "extract_sources_from seen (None # rest) = extract_sources_from seen rest"
| "extract_sources_from seen (Some meta # rest) =
     (if meta = [] then extract_sources_from seen rest
      else (let source = (case map_of meta ''source'' of None \<Rightarrow> MStr ''Unknown'' | Some v \<Rightarrow> v) in
            if source \<in> set seen then extract_sources_from seen rest
            else \<lparr>src_file = source,
                  src_document_type =
                    (case map_of meta ''document_type'' of None \<Rightarrow> MStr ''general'' | Some v \<Rightarrow> v),
                  src_page = map_of meta ''page''\<rparr>
                 # extract_sources_from (source # seen) rest))"

definition extract_sources :: "metadata option list \<Rightarrow> source_info list" where
  "extract_sources ms = extract_sources_from [] ms"

definition QAAgent_retrieve ::
  "QAAgent \<Rightarrow> string \<Rightarrow> (string \<times> string) list option \<Rightarrow> string + retrieval" where
  "QAAgent_retrieve qa query_text document_filter =
     (case document_filter of
        None \<Rightarrow> VectorStore_query (collection qa) query_text (top_k qa) []
      | Some f \<Rightarrow>
          if f \<noteq> []
          then VectorStore_query_with_filter (collection qa) query_text
                 (map_of f ''document_type'') (map_of f ''source_file'') (top_k qa)
          else VectorStore_query (collection qa) query_text (top_k qa) [])"

definition QAAgent_answer ::
  "QAAgent \<Rightarrow> LLMClient \<Rightarrow> string \<Rightarrow> session_turn list \<Rightarrow> (string \<times> string) list option
     \<Rightarrow> llm_state \<Rightarrow> agent_response \<times> llm_state" where
  "QAAgent_answer qa llm query_text conversation_history document_filter st =
     (case QAAgent_retrieve qa query_text document_filter of
        Inl e \<Rightarrow>
          (\<lparr>answer = Some (''I encountered an error while searching: '' @ e),
            sources = Some [], context_chunks = Some [], metadata = Some NoMetadata\<rparr>, st)
      | Inr results \<Rightarrow>
          (let passages = documents results in
           if passages \<noteq> []
           then (case LLMClient_generate_with_context llm query_text passages conversation_history
                        (Some qa_system_prompt) st of
                   (generated, st') \<Rightarrow>
                     (\<lparr>answer = Some generated,
                       sources = Some (extract_sources (metadatas results)),
                       context_chunks = Some passages,
                       metadata = Some (QAMetadata (length passages) (distances results))\<rparr>, st'))
           else (\<lparr>answer = Some (no_context_response query_text),
                  sources = Some [],
                  context_chunks = Some passages,
                  metadata = Some (QAMetadata (length passages) (distances results))\<rparr>, st)))"

section \<open>Admin agent (agents/admin\_agent.py)\<close>

text \<open>
  The SQLite database behind the admin agent is an input: its schema text, and the
  outcome of executing a statement (the rows, each as the text \<open>str\<close> prints for it, or
  the text of the exception). The store itself is taken to be reachable.
\<close>

record AdminAgent =
  db_schema :: string
  db_execute :: "string \<Rightarrow> string + string list"

text \<open>\<open>s.replace(old, new)\<close> for a non-empty \<open>old\<close>.\<close>

function replace_all :: "string \<Rightarrow> string \<Rightarrow> string \<Rightarrow> string" where
  "replace_all old new s =
     (if old = [] \<or> s = [] then s
      else if prefix old s then new @ replace_all old new (drop (length old) s)
      else hd s # replace_all old new (tl s))"
  by pat_completeness auto
termination
  by (relation "measure (\<lambda>(old, new, s). length s)") auto

declare replace_all.simps [simp del]

definition sql_prompt :: "string \<Rightarrow> string \<Rightarrow> string" where
  "sql_prompt user_query schema =
     ''You are a SQL expert. Convert the following natural language query to '' @
     ''SQL.\<newline>'' @
     ''\<newline>'' @
     ''Database Schema:\<newline>'' @ schema @
     ''\<newline>'' @
     ''\<newline>'' @
     ''User Query: '' @
     dq @ user_query @
     dq @
     ''\<newline>'' @
     ''\<newline>'' @
     ''Rules:\<newline>'' @
     ''- Only generate SELECT queries (no INSERT, UPDATE, DELETE)\<newline>'' @
     ''- Use proper SQL syntax for SQLite\<newline>'' @
     ''- Return ONLY the SQL query, nothing else\<newline>'' @
     ''- If the query cannot be answered with the schema, return '' @
     dq @
     ''INVALID'' @
     dq @
     ''\<newline>'' @
     ''\<newline>'' @
     ''SQL Query:''"

definition AdminAgent_generate_sql ::
  "LLMClient \<Rightarrow> string \<Rightarrow> string \<Rightarrow> llm_state \<Rightarrow> string option \<times> llm_state" where
  "AdminAgent_generate_sql llm user_query schema st =
     (case LLMClient_generate llm (sql_prompt user_query schema) (1 / 10) st of
        (response_text, st') \<Rightarrow>
          (let sql = strip (replace_all ''```'' [] (replace_all ''```sql'' [] (strip response_text)))
           in if sublist ''INVALID'' (upper sql) \<or> \<not> prefix ''SELECT'' (upper sql)
              then (None, st') else (Some sql, st')))"

definition format_prompt :: "string \<Rightarrow> string list \<Rightarrow> string" where
  "format_prompt user_query results =
     ''Convert these database results into a natural, helpful response.\<newline>'' @
     ''\<newline>'' @
     ''User asked: '' @
     dq @ user_query @
     dq @
     ''\<newline>'' @
     ''\<newline>'' @
     ''Results (showing up to 10 of '' @ str_nat (length results) @
     '' total):\<newline>'' @ ''['' @ join '', '' (take 10 results) @ '']'' @
     ''\<newline>'' @
     ''\<newline>'' @
     ''Provide a clear, natural language summary of the data. Include specific '' @
     ''numbers and names where relevant.\<newline>'' @
     ''Keep the response concise but informative.''"

definition AdminAgent_format_response ::
  "LLMClient \<Rightarrow> string \<Rightarrow> string list \<Rightarrow> llm_state \<Rightarrow> string \<times> llm_state" where
  "AdminAgent_format_response llm user_query results st =
     (if results = [] then (''No results found matching your query.'', st)
      else LLMClient_generate llm (format_prompt user_query results) (3 / 10) st)"

definition answer_only :: "string \<Rightarrow> agent_response" where
  "answer_only a = \<lparr>answer = Some a, sources = None, context_chunks = None, metadata = None\<rparr>"

definition AdminAgent_query ::
  "AdminAgent \<Rightarrow> LLMClient \<Rightarrow> string \<Rightarrow> llm_state \<Rightarrow> agent_response \<times> llm_state" where
  "AdminAgent_query admin llm user_query st =
     (case AdminAgent_generate_sql llm user_query (db_schema admin) st of
        (None, st1) \<Rightarrow>
          (answer_only (''I couldn'' @ sq @ ''t understand that query. Could you rephrase it?''), st1)
      | (Some sql, st1) \<Rightarrow>
          (case db_execute admin sql of
             Inl e \<Rightarrow> (answer_only (''I encountered an error executing that query: '' @ e), st1)
           | Inr results \<Rightarrow>
               (case AdminAgent_format_response llm user_query results st1 of
                  (formatted, st2) \<Rightarrow> (answer_only formatted, st2))))"

section \<open>Conversation memory (core/memory.py)\<close>

record SessionMemory =
  max_turns :: int

definition SessionMemory_add_turn ::
  "SessionMemory \<Rightarrow> (string \<rightharpoonup> session_turn list) \<Rightarrow> string \<Rightarrow> string \<Rightarrow> string \<Rightarrow> int
     \<Rightarrow> (string \<rightharpoonup> session_turn list)" where
  "SessionMemory_add_turn mem sessions session_id query_text response_text py_now =
     (let turns = (case sessions session_id of None \<Rightarrow> [] | Some ts \<Rightarrow> ts) @
                  [\<lparr>turn_user = query_text, turn_assistant = response_text, turn_timestamp = py_now\<rparr>]
      in sessions(session_id \<mapsto>
           (if int (length turns) > max_turns mem then py_suffix (- max_turns mem) turns else turns)))"

definition SessionMemory_get_history ::
  "(string \<rightharpoonup> session_turn list) \<Rightarrow> string \<Rightarrow> session_turn list" where
  "SessionMemory_get_history sessions session_id =
     (case sessions session_id of None \<Rightarrow> [] | Some ts \<Rightarrow> ts)"

record conversation_row =
  conv_id :: int
  conv_session_id :: string
  conv_user_id :: "string option"
  conv_query :: string
  conv_response :: string
  conv_intent :: "string option"
  conv_context_chunks :: string
  conv_timestamp :: int

record conversations_table =
  conv_rows :: "conversation_row list"
  conv_seq :: int

definition empty_conversations :: conversations_table where
  "empty_conversations = \<lparr>conv_rows = [], conv_seq = 0\<rparr>"

text \<open>\<open>ConversationMemory.add_turn\<close>: returns \<open>lastrowid\<close> and the table.\<close>

definition ConversationMemory_add_turn ::
  "conversations_table \<Rightarrow> string \<Rightarrow> string \<Rightarrow> string \<Rightarrow> string option \<Rightarrow> string option
     \<Rightarrow> string list \<Rightarrow> int \<Rightarrow> int \<times> conversations_table" where
  "ConversationMemory_add_turn t session_id query_text response_text user_id intent chunks db_now =
     (let chunks_str = (if chunks \<noteq> [] then join ''|'' chunks else []);
          record_id = conv_seq t + 1
      in (record_id,
          \<lparr>conv_rows = conv_rows t @
             [\<lparr>conv_id = record_id, conv_session_id = session_id, conv_user_id = user_id,
               conv_query = query_text, conv_response = response_text, conv_intent = intent,
               conv_context_chunks = chunks_str, conv_timestamp = db_now\<rparr>],
            conv_seq = record_id\<rparr>))"

section \<open>Orchestrator (agents/orchestrator.py)\<close>

record AgentOrchestrator =
  orch_session_id :: string
  orch_user_id :: "string option"

text \<open>The shared singletons: the LLM client, the agents and the session memory's cap.\<close>

record services =
  svc_llm :: LLMClient
  svc_qa_agent :: QAAgent
  svc_admin_agent :: AdminAgent
  svc_session_memory :: SessionMemory

text \<open>What a query can change: the adapter's log, the session tier and the durable tier.\<close>

record backend =
  llm_log :: llm_state
  session_tier :: "string \<rightharpoonup> session_turn list"
  durable_tier :: conversations_table

definition backend0 :: backend where
  "backend0 = \<lparr>llm_log = llm_state0, session_tier = Map.empty, durable_tier = empty_conversations\<rparr>"

record query_result =
  res_answer :: string
  res_intent :: string
  res_sources :: "source_info list"
  res_metadata :: response_metadata

definition general_prompt :: "string \<Rightarrow> string" where
  "general_prompt query_text =
     ''You are a friendly university AI assistant named '' @
     dq @
     ''University Assistant'' @
     dq @
     ''.\<newline>'' @
     ''The user said: '' @
     dq @ query_text @
     dq @
     ''\<newline>'' @
     ''\<newline>'' @
     ''If this is a greeting, respond warmly and offer to help with university-related '' @
     ''questions.\<newline>'' @
     ''You can also help with generating administrative emails.\<newline>'' @
     ''If this is a thank you, respond politely.\<newline>'' @
     ''If this is off-topic, politely redirect to university topics you can help '' @
     ''with.\<newline>'' @
     ''\<newline>'' @
     ''Keep your response brief, friendly and helpful. Respond in the same language '' @
     ''the user used.''"

definition handle_general_query :: "LLMClient \<Rightarrow> string \<Rightarrow> llm_state \<Rightarrow> agent_response \<times> llm_state" where
  "handle_general_query client query_text st =
     (case LLMClient_generate client (general_prompt query_text) (7 / 10) st of
        (generated, st') \<Rightarrow>
          (\<lparr>answer = Some generated, sources = Some [], context_chunks = None,
            metadata = Some GeneralMetadata\<rparr>, st'))"

definition check_admin_permission :: bool where
  "check_admin_permission = True"

definition route_to_agent ::
  "services \<Rightarrow> string \<Rightarrow> string \<Rightarrow> session_turn list \<Rightarrow> (string \<times> string) list option
     \<Rightarrow> llm_state \<Rightarrow> agent_response \<times> llm_state" where
  "route_to_agent sv query_text intent history document_filter st =
     (if intent = ''qa''
      then QAAgent_answer (svc_qa_agent sv) (svc_llm sv) query_text history document_filter st
      else if intent = ''admin''
      then (if \<not> check_admin_permission
            then (\<lparr>answer = Some (''You don'' @ sq @ ''t have permission to access administrative features.''),
                   sources = Some [], context_chunks = None, metadata = None\<rparr>, st)
            else AdminAgent_query (svc_admin_agent sv) (svc_llm sv) query_text st)
      else handle_general_query (svc_llm sv) query_text st)"

definition get_or :: "'a option \<Rightarrow> 'a \<Rightarrow> 'a" where
  "get_or v d = (case v of None \<Rightarrow> d | Some x \<Rightarrow> x)"

text \<open>\<open>process_query\<close>: \<open>py_now\<close> is the reading of \<open>datetime.now()\<close> in the session tier's
  \<open>add_turn\<close>, \<open>db_now\<close> the \<open>CURRENT_TIMESTAMP\<close> of the durable tier's INSERT. The third
  argument is the \<open>document_filter\<close> entry of \<open>context\<close>, if any.\<close>

definition process_query ::
  "AgentOrchestrator \<Rightarrow> services \<Rightarrow> string \<Rightarrow> (string \<times> string) list option \<Rightarrow> int \<Rightarrow> int
     \<Rightarrow> backend \<Rightarrow> query_result \<times> backend" where
  "process_query orch sv query_text document_filter py_now db_now b =
     (let history = SessionMemory_get_history (session_tier b) (orch_session_id orch);
          (intent, st1) = (if re_match GREETING_PATTERNS query_text then (''general'', llm_log b)
                           else LLMClient_classify_intent (svc_llm sv) query_text (llm_log b));
          (resp, st2) = route_to_agent sv query_text intent history document_filter st1;
          session_tier' = SessionMemory_add_turn (svc_session_memory sv) (session_tier b)
                            (orch_session_id orch) query_text (get_or (answer resp) []) py_now;
          (record_id, durable_tier') = ConversationMemory_add_turn (durable_tier b)
                            (orch_session_id orch) query_text (get_or (answer resp) [])
                            (orch_user_id orch) (Some intent) (get_or (context_chunks resp) []) db_now
      in (\<lparr>res_answer = get_or (answer resp) [], res_intent = intent,
            res_sources = get_or (sources resp) [],
            res_metadata = get_or (metadata resp) NoMetadata\<rparr>,
          \<lparr>llm_log = st2, session_tier = session_tier', durable_tier = durable_tier'\<rparr>))"

section \<open>Application entry point (app.py)\<close>

record chat_message =
  role :: string
  content :: string
  msg_sources :: "source_info list option"

record app_state =
  chat_history :: "chat_message list"
  orchestrator :: "AgentOrchestrator option"
  app_session_id :: string
  username :: string
  faq :: faq_table
  app_backend :: backend

text \<open>The clock readings of one run of the chat handler: for \<open>faq_cache.get\<close>, for the two
  memory writes, and for \<open>faq_cache.set\<close>.\<close>

record readings =
  get_py_now :: int
  get_db_now :: int
  turn_py_now :: int
  turn_db_now :: int
  set_db_now :: int

definition create_orchestrator :: "string \<Rightarrow> string option \<Rightarrow> AgentOrchestrator" where
  "create_orchestrator session_id user_id = \<lparr>orch_session_id = session_id, orch_user_id = user_id\<rparr>"

text \<open>The block \<open>if user_question:\<close> of the module, for a logged-in user.\<close>

definition handle_question ::
  "FAQCache \<Rightarrow> services \<Rightarrow> string \<Rightarrow> readings \<Rightarrow> app_state \<Rightarrow> app_state" where
  "handle_question faq_cache sv user_question clk s =
     (if user_question = [] then s
      else
        (let history1 = chat_history s @
                 [\<lparr>role = ''user'', content = user_question, msg_sources = None\<rparr>];
             (cached_response, faq1) =
                 FAQCache_get faq_cache (faq s) user_question (get_py_now clk) (get_db_now clk)
         in if cached_response \<noteq> None \<and> cached_response \<noteq> Some []
            then s\<lparr>chat_history := history1 @
                       [\<lparr>role = ''assistant'', content = the cached_response, msg_sources = Some []\<rparr>],
                    faq := faq1\<rparr>
            else
              (let orch = (case orchestrator s of
                             None \<Rightarrow> create_orchestrator (app_session_id s) (Some (username s))
                           | Some existing \<Rightarrow> existing);
                   (result, backend') = process_query orch sv user_question None
                                          (turn_py_now clk) (turn_db_now clk) (app_backend s);
                   faq2 = FAQCache_set faq_cache faq1 user_question (res_answer result) (set_db_now clk)
               in s\<lparr>chat_history := history1 @
                        [\<lparr>role = ''assistant'', content = res_answer result,
                          msg_sources = Some (res_sources result)\<rparr>],
                     orchestrator := Some orch,
                     faq := faq2,
                     app_backend := backend'\<rparr>)))"

subsection \<open>Sample index and services\<close>

definition empty_index :: chroma where
  "empty_index = (\<lambda>query_text n_results where_filter.
     QueryResult (Some \<lparr>raw_documents = [[]], raw_metadatas = [[]], raw_distances = [[]],
                         raw_ids = [[]]\<rparr>))"

definition empty_qa :: QAAgent where
  "empty_qa = \<lparr>collection = empty_index, top_k = 5\<rparr>"

definition handbook_index :: chroma where
  "handbook_index = (\<lambda>query_text n_results where_filter.
     QueryResult (Some \<lparr>raw_documents = [[''Fees are due May 1'']],
                         raw_metadatas = [[Some [(''source'', MStr ''handbook.pdf''), (''page'', MInt 3)]]],
                         raw_distances = [[1 / 5]],
                         raw_ids = [[''c1'']]\<rparr>))"

definition scripted_llm :: LLMClient where
  "scripted_llm = \<lparr>provider = (\<lambda>n p t. if n = 0 then Inr ''qa'' else Inr ''Due on May 1.''),
                    max_context = 8000\<rparr>"

definition demo_services :: services where
  "demo_services =
     \<lparr>svc_llm = scripted_llm,
      svc_qa_agent = \<lparr>collection = handbook_index, top_k = 5\<rparr>,
      svc_admin_agent = \<lparr>db_schema = [], db_execute = (\<lambda>sql. Inr [])\<rparr>,
      svc_session_memory = \<lparr>max_turns = 10\<rparr>\<rparr>"

definition app_state0 :: app_state where
  "app_state0 = \<lparr>chat_history = [], orchestrator = None, app_session_id = ''s1'',
                  username = ''alice'', faq = empty_table, app_backend = backend0\<rparr>"

definition readings1 :: readings where
  "readings1 = \<lparr>get_py_now = 10, get_db_now = 10, turn_py_now = 11, turn_db_now = 11, set_db_now = 12\<rparr>"

definition readings2 :: readings where
  "readings2 = \<lparr>get_py_now = 20, get_db_now = 20, turn_py_now = 21, turn_db_now = 21, set_db_now = 22\<rparr>"

definition after_first :: app_state where
  "after_first = handle_question demo_cache demo_services ''Fees?'' readings1 app_state0"

definition after_second :: app_state where
  "after_second = handle_question demo_cache demo_services ''fees?'' readings2 after_first"

section \<open>Verification: response cache\<close>

lemma empty_table_wf: "table_wf empty_table"
  by (simp add: table_wf_def empty_table_def)

lemma table_wf_map:
  assumes "table_wf t"
    and "\<And>x. row_id (g x) = row_id x"
    and "\<And>x. query_hash (g x) = query_hash x"
  shows "table_wf (t\<lparr>rows := map g (rows t)\<rparr>)"
proof -
  have ids: "map (row_id \<circ> g) (rows t) = map row_id (rows t)"
    using assms(2) by simp
  have hs: "map (query_hash \<circ> g) (rows t) = map query_hash (rows t)"
    using assms(3) by simp
  have bound: "list_all (\<lambda>r. row_id r \<le> seq t) (map g (rows t))"
    using assms(1,2) by (simp add: table_wf_def list_all_iff)
  show ?thesis
    using assms(1) bound by (simp add: table_wf_def ids hs)
qed

lemma table_wf_filter:
  assumes "table_wf t"
  shows "table_wf (t\<lparr>rows := filter P (rows t)\<rparr>)"
  using assms by (simp add: table_wf_def distinct_map_filter list_all_iff)

lemma table_wf_seq:
  assumes "table_wf t" and "seq t \<le> n"
  shows "table_wf (t\<lparr>seq := n\<rparr>)"
  using assms by (fastforce simp: table_wf_def list_all_iff)

lemma touch_keys [simp]:
  "row_id (touch d x) = row_id x" "query_hash (touch d x) = query_hash x"
  by (simp_all add: touch_def)

lemma FAQCache_get_wf: "table_wf t \<Longrightarrow> table_wf (snd (FAQCache_get c t q p d))"
  unfolding FAQCache_get_def Let_def
  by (cases "find (\<lambda>r. query_hash r = hash_query c q \<and> p - timedelta_hours (ttl_hours c) < created_at r) (rows t)")
     (simp_all add: table_wf_map)

lemma upsert_wf:
  assumes "table_wf t"
  shows "table_wf (upsert c t q resp d)"
proof (cases "hash_query c q \<in> set (map query_hash (rows t))")
  case True
  let ?g = "\<lambda>x. if query_hash x = hash_query c q then (touch d x)\<lparr>response := resp\<rparr> else x"
  have "table_wf (t\<lparr>rows := map ?g (rows t)\<rparr>)"
    using assms by (simp add: table_wf_map)
  then have "table_wf (t\<lparr>rows := map ?g (rows t), seq := seq t + 1\<rparr>)"
    by (rule table_wf_seq) simp
  then show ?thesis
    using True unfolding upsert_def Let_def by simp
next
  case False
  have fresh: "seq t + 1 \<notin> set (map row_id (rows t))"
    using assms by (auto simp: table_wf_def list_all_iff)
  have bound: "list_all (\<lambda>r. row_id r \<le> seq t + 1) (rows t)"
    using assms by (auto simp: table_wf_def list_all_iff)
  show ?thesis
    using False assms fresh bound unfolding upsert_def Let_def
    by (simp add: table_wf_def new_row_def)
qed

lemma cleanup_if_needed_wf: "table_wf t \<Longrightarrow> table_wf (cleanup_if_needed c t)"
  unfolding cleanup_if_needed_def Let_def by (simp add: table_wf_filter)

lemma FAQCache_set_wf: "table_wf t \<Longrightarrow> table_wf (FAQCache_set c t q resp d)"
  by (simp add: FAQCache_set_def upsert_wf cleanup_if_needed_wf)

lemma FAQCache_invalidate_wf: "table_wf t \<Longrightarrow> table_wf (snd (FAQCache_invalidate c t q))"
proof -
  assume wf: "table_wf t"
  have e: "table_wf (t\<lparr>rows := []\<rparr>)" using wf by (simp add: table_wf_def)
  show ?thesis
    unfolding FAQCache_invalidate_def Let_def
    using e table_wf_filter[OF wf] by (cases q) simp_all
qed

lemma cache_step_wf: "table_wf t \<Longrightarrow> table_wf (cache_step c t x)"
  by (cases x) (simp_all add: FAQCache_get_wf FAQCache_set_wf FAQCache_invalidate_wf)

lemma cache_run_wf: "table_wf t \<Longrightarrow> table_wf (cache_run c t ops)"
  unfolding cache_run_def
  by (induction ops arbitrary: t) (simp_all add: cache_step_wf)

lemma evict_length:
  assumes d: "distinct (map row_id rs)" and k: "k \<le> length rs"
  shows "length (filter (\<lambda>r. row_id r \<notin> set (map row_id (take k (sort_key f rs)))) rs)
         = length rs - k"
proof -
  let ?s = "sort_key f rs"
  have drs: "distinct rs" using d by (simp add: distinct_map)
  have inj: "inj_on row_id (set rs)" using d by (simp add: distinct_map)
  have ds: "distinct ?s" using drs by simp
  have ss: "set ?s = set rs" by simp
  have split: "set rs = set (take k ?s) \<union> set (drop k ?s)"
    using set_append[of "take k ?s" "drop k ?s"] ss by simp
  have disj: "set (take k ?s) \<inter> set (drop k ?s) = {}"
    using ds distinct_append[of "take k ?s" "drop k ?s"] by simp
  have sub: "set (take k ?s) \<subseteq> set rs" using split by blast
  have "set (filter (\<lambda>r. row_id r \<notin> set (map row_id (take k ?s))) rs) = set (drop k ?s)"
  proof (intro set_eqI iffI)
    fix x assume "x \<in> set (filter (\<lambda>r. row_id r \<notin> set (map row_id (take k ?s))) rs)"
    then have "x \<in> set rs" "x \<notin> set (take k ?s)" by auto
    then show "x \<in> set (drop k ?s)" using split by blast
  next
    fix x assume x: "x \<in> set (drop k ?s)"
    then have xr: "x \<in> set rs" using split by blast
    have "x \<notin> set (take k ?s)" using x disj by blast
    then have "row_id x \<notin> row_id ` set (take k ?s)"
      using inj xr sub by (auto dest: inj_onD)
    then show "x \<in> set (filter (\<lambda>r. row_id r \<notin> set (map row_id (take k ?s))) rs)"
      using xr by simp
  qed
  moreover have "distinct (filter (\<lambda>r. row_id r \<notin> set (map row_id (take k ?s))) rs)"
    using drs by simp
  moreover have "distinct (drop k ?s)" using ds by simp
  ultimately have "length (filter (\<lambda>r. row_id r \<notin> set (map row_id (take k ?s))) rs)
                   = length (drop k ?s)"
    by (metis distinct_card)
  then show ?thesis by simp
qed

lemma evict_lru:
  assumes d: "distinct (map row_id rs)"
    and x: "x \<in> set rs" "row_id x \<in> set (map row_id (take k (sort_key f rs)))"
    and y: "y \<in> set rs" "row_id y \<notin> set (map row_id (take k (sort_key f rs)))"
  shows "f x \<le> f y"
proof -
  let ?s = "sort_key f rs"
  have inj: "inj_on row_id (set rs)" using d by (simp add: distinct_map)
  have sub: "set (take k ?s) \<subseteq> set rs" using set_take_subset[of k ?s] by simp
  obtain x' where x': "x' \<in> set (take k ?s)" "row_id x' = row_id x" using x(2) by auto
  then have "x' = x" using inj sub x(1) by (auto dest: inj_onD)
  then have xt: "x \<in> set (take k ?s)" using x' by simp
  have "y \<notin> set (take k ?s)" using y(2) by auto
  moreover have "y \<in> set (take k ?s) \<union> set (drop k ?s)"
    using set_append[of "take k ?s" "drop k ?s"] y(1) by simp
  ultimately have yd: "y \<in> set (drop k ?s)" by blast
  have "sorted (map f (take k ?s @ drop k ?s))" by simp
  then have "\<forall>a\<in>set (map f (take k ?s)). \<forall>b\<in>set (map f (drop k ?s)). a \<le> b"
    unfolding map_append sorted_append by blast
  then show ?thesis using xt yd by auto
qed

lemma cleanup_length:
  assumes wf: "table_wf t" and cap: "0 \<le> max_size c"
  shows "int (length (rows (cleanup_if_needed c t))) = min (int (length (rows t))) (max_size c)"
proof (cases "int (length (rows t)) > max_size c")
  case True
  let ?k = "nat (int (length (rows t)) - max_size c)"
  have k: "?k \<le> length (rows t)" using cap by simp
  have d: "distinct (map row_id (rows t))" using wf by (simp add: table_wf_def)
  have "length (rows (cleanup_if_needed c t)) = length (rows t) - ?k"
    using True evict_length[OF d k, of last_accessed]
    by (simp add: cleanup_if_needed_def Let_def cleanup_victims_def)
  then show ?thesis using True cap by simp
next
  case False
  then show ?thesis by (simp add: cleanup_if_needed_def Let_def)
qed

lemma cleanup_lru:
  assumes wf: "table_wf t"
    and x: "x \<in> set (rows t)" "x \<notin> set (rows (cleanup_if_needed c t))"
    and y: "y \<in> set (rows (cleanup_if_needed c t))"
  shows "last_accessed x \<le> last_accessed y"
proof (cases "int (length (rows t)) > max_size c")
  case True
  let ?k = "nat (int (length (rows t)) - max_size c)"
  have d: "distinct (map row_id (rows t))" using wf by (simp add: table_wf_def)
  have rows': "rows (cleanup_if_needed c t)
     = filter (\<lambda>r. row_id r \<notin> set (map row_id (take ?k (sort_key last_accessed (rows t))))) (rows t)"
    using True by (simp add: cleanup_if_needed_def Let_def cleanup_victims_def)
  have xv: "row_id x \<in> set (map row_id (take ?k (sort_key last_accessed (rows t))))"
    using x unfolding rows' by simp
  have yr: "y \<in> set (rows t)" and yv: "row_id y \<notin> set (map row_id (take ?k (sort_key last_accessed (rows t))))"
    using y unfolding rows' by simp_all
  show ?thesis by (rule evict_lru[OF d x(1) xv yr yv])
next
  case False
  then have "cleanup_if_needed c t = t" by (simp add: cleanup_if_needed_def Let_def)
  then show ?thesis using x by simp
qed

lemma upsert_length:
  "length (rows (upsert c t q resp d)) =
     (if hash_query c q \<in> set (map query_hash (rows t)) then length (rows t) else length (rows t) + 1)"
  by (simp add: upsert_def Let_def)

lemma filter_head_id:
  assumes "distinct (map row_id (r # rs))"
  shows "filter (\<lambda>x. row_id x \<notin> {row_id r}) (r # rs) = rs"
proof -
  have "row_id x \<noteq> row_id r" if "x \<in> set rs" for x
    using that assms by (auto simp: image_iff)
  then have "filter (\<lambda>x. row_id x \<noteq> row_id r) rs = rs" by (simp add: filter_id_conv)
  then show ?thesis by simp
qed

lemma set_fresh_step:
  assumes wf: "table_wf t" and cap: "0 \<le> max_size c"
    and fresh: "hash_query c q \<notin> set (map query_hash (rows t))"
    and srt: "sorted (map last_accessed (rows t))"
    and later: "\<forall>r\<in>set (rows t). last_accessed r \<le> d"
    and len: "int (length (rows t)) \<le> max_size c"
  shows "rows (FAQCache_set c t q resp d) =
           (if int (length (rows t)) < max_size c
            then rows t @ [new_row (seq t + 1) (hash_query c q) q resp d]
            else tl (rows t @ [new_row (seq t + 1) (hash_query c q) q resp d]))"
proof -
  let ?n = "new_row (seq t + 1) (hash_query c q) q resp d"
  let ?u = "upsert c t q resp d"
  have ru: "rows ?u = rows t @ [?n]" using fresh by (simp add: upsert_def Let_def)
  have wfu: "table_wf ?u" using wf by (rule upsert_wf)
  show ?thesis
  proof (cases "int (length (rows t)) < max_size c")
    case True
    then have "cleanup_if_needed c ?u = ?u" by (simp add: cleanup_if_needed_def Let_def ru)
    then show ?thesis using True ru by (simp add: FAQCache_set_def)
  next
    case False
    then have eq: "int (length (rows t)) = max_size c" using len by simp
    have s: "sorted (map last_accessed (rows ?u))"
      using srt later by (simp add: ru sorted_append new_row_def)
    have sk: "sort_key last_accessed (rows ?u) = rows ?u" by (rule sort_key_id_if_sorted[OF s])
    have "rows ?u \<noteq> []" using ru by simp
    then obtain h tl' where ht: "rows ?u = h # tl'" by (cases "rows ?u") auto
    have d: "distinct (map row_id (h # tl'))" using wfu ht by (simp add: table_wf_def)
    have cnt: "int (length (rows ?u)) > max_size c" using eq ru by simp
    have ex: "nat (int (length (rows ?u)) - max_size c) = 1" using eq ru by simp
    have a: "take (nat (int (length (rows ?u)) - max_size c)) (sort_key last_accessed (rows ?u))
             = take 1 (rows ?u)"
      by (simp only: ex sk)
    have b: "take 1 (rows ?u) = [h]" by (simp add: ht)
    have vict: "cleanup_victims (int (length (rows ?u)) - max_size c) (rows ?u) = [row_id h]"
      unfolding cleanup_victims_def a b by simp
    have "rows (cleanup_if_needed c ?u) = filter (\<lambda>x. row_id x \<notin> set [row_id h]) (rows ?u)"
      unfolding cleanup_if_needed_def Let_def using cnt vict by simp
    then have "rows (cleanup_if_needed c ?u) = filter (\<lambda>x. row_id x \<notin> {row_id h}) (h # tl')"
      unfolding ht by simp
    then have "rows (cleanup_if_needed c ?u) = tl'" using filter_head_id[OF d] by simp
    then show ?thesis using False ht ru by (simp add: FAQCache_set_def)
  qed
qed

lemma set_all_snoc:
  "set_all c t (xs @ [(q, resp, d)]) = FAQCache_set c (set_all c t xs) q resp d"
  by (simp add: set_all_def)

lemma drop_snoc_tl:
  assumes "k \<le> length xs"
  shows "drop (Suc k) (xs @ [x]) = tl (drop k xs @ [x])"
proof -
  have "drop (Suc k) (xs @ [x]) = tl (drop k (xs @ [x]))" by (simp only: drop_Suc tl_drop)
  also have "drop k (xs @ [x]) = drop k xs @ [x]" using assms by simp
  finally show ?thesis .
qed

lemma set_all_fresh_run:
  assumes cap: "0 \<le> max_size c"
    and dh: "distinct (map (\<lambda>y. hash_query c (fst y)) xs)"
    and inc: "sorted_wrt (<) (map (\<lambda>y. snd (snd y)) xs)"
  shows "table_wf (set_all c empty_table xs) \<and>
         map (\<lambda>r. (query r, response r, last_accessed r)) (rows (set_all c empty_table xs))
           = drop (length xs - nat (max_size c)) xs \<and>
         map query_hash (rows (set_all c empty_table xs))
           = map (\<lambda>y. hash_query c (fst y)) (drop (length xs - nat (max_size c)) xs)"
  using dh inc
proof (induction xs rule: rev_induct)
  case Nil
  show ?case by (simp add: set_all_def empty_table_wf) (simp add: empty_table_def)
next
  case (snoc x xs)
  obtain q resp d where x: "x = (q, resp, d)" by (cases x) auto
  let ?t = "set_all c empty_table xs"
  let ?k = "length xs - nat (max_size c)"
  let ?n = "new_row (seq ?t + 1) (hash_query c q) q resp d"
  have dh': "distinct (map (\<lambda>y. hash_query c (fst y)) xs)" using snoc.prems(1) by simp
  have inc': "sorted_wrt (<) (map (\<lambda>y. snd (snd y)) xs)"
    using snoc.prems(2) by (simp add: sorted_wrt_append)
  note IH = snoc.IH[OF dh' inc']
  have wf: "table_wf ?t" using IH by simp
  have ent: "map (\<lambda>r. (query r, response r, last_accessed r)) (rows ?t) = drop ?k xs"
    using IH by simp
  have hs: "map query_hash (rows ?t) = map (\<lambda>y. hash_query c (fst y)) (drop ?k xs)"
    using IH by simp
  have la: "map last_accessed (rows ?t) = map (\<lambda>y. snd (snd y)) (drop ?k xs)"
  proof -
    have "map last_accessed (rows ?t)
          = map (\<lambda>y. snd (snd y)) (map (\<lambda>r. (query r, response r, last_accessed r)) (rows ?t))"
      by simp
    then show ?thesis by (simp only: ent)
  qed
  have len: "length (rows ?t) = length xs - ?k"
  proof -
    have "length (rows ?t) = length (map (\<lambda>r. (query r, response r, last_accessed r)) (rows ?t))"
      by simp
    then show ?thesis by (simp only: ent length_drop)
  qed
  have fresh: "hash_query c q \<notin> set (map query_hash (rows ?t))"
  proof -
    have "hash_query c q \<notin> set (map (\<lambda>y. hash_query c (fst y)) xs)"
      using snoc.prems(1) x by simp
    moreover have "set (map (\<lambda>y. hash_query c (fst y)) (drop ?k xs)) \<subseteq> set (map (\<lambda>y. hash_query c (fst y)) xs)"
      using set_drop_subset[of ?k xs] by auto
    ultimately show ?thesis unfolding hs by blast
  qed
  have srt: "sorted (map last_accessed (rows ?t))"
  proof -
    have "sorted_wrt (<) (drop ?k (map (\<lambda>y. snd (snd y)) xs))"
      using inc' by (rule sorted_wrt_drop)
    then have "sorted_wrt (<) (map (\<lambda>y. snd (snd y)) (drop ?k xs))" by (simp add: drop_map)
    then show ?thesis unfolding la by (simp add: strict_sorted_iff)
  qed
  have later: "\<forall>r\<in>set (rows ?t). last_accessed r \<le> d"
  proof
    fix r assume "r \<in> set (rows ?t)"
    then have "last_accessed r \<in> set (map last_accessed (rows ?t))" by simp
    then have "last_accessed r \<in> set (map (\<lambda>y. snd (snd y)) (drop ?k xs))" unfolding la .
    then have "last_accessed r \<in> set (map (\<lambda>y. snd (snd y)) xs)"
      using set_drop_subset[of ?k xs] by auto
    then have "last_accessed r < d"
      using snoc.prems(2) x by (auto simp: sorted_wrt_append)
    then show "last_accessed r \<le> d" by simp
  qed
  have bound: "int (length (rows ?t)) \<le> max_size c" using len cap by simp
  have step: "rows (FAQCache_set c ?t q resp d) =
           (if int (length (rows ?t)) < max_size c then rows ?t @ [?n] else tl (rows ?t @ [?n]))"
    by (rule set_fresh_step[OF wf cap fresh srt later bound])
  have wf': "table_wf (FAQCache_set c ?t q resp d)" using wf by (rule FAQCache_set_wf)
  have nq: "(\<lambda>r. (query r, response r, last_accessed r)) ?n = (q, resp, d)"
    by (simp add: new_row_def)
  have nh: "query_hash ?n = hash_query c q" by (simp add: new_row_def)
  show ?case
  proof (cases "int (length (rows ?t)) < max_size c")
    case True
    then have k0: "?k = 0" "length (xs @ [x]) - nat (max_size c) = 0" using len by simp_all
    have r: "rows (FAQCache_set c ?t q resp d) = rows ?t @ [?n]" using step True by simp
    show ?thesis
      unfolding x set_all_snoc r
      using wf' ent hs k0 nq nh by (simp add: x)
  next
    case False
    then have kk: "length (xs @ [x]) - nat (max_size c) = Suc ?k" and kle: "?k \<le> length xs"
      using len cap by simp_all
    have r: "rows (FAQCache_set c ?t q resp d) = tl (rows ?t @ [?n])" using step False by simp
    have e1: "map (\<lambda>r. (query r, response r, last_accessed r)) (tl (rows ?t @ [?n]))
              = tl (drop ?k xs @ [(q, resp, d)])"
      unfolding map_tl using ent nq by simp
    have e2: "map query_hash (tl (rows ?t @ [?n]))
              = map (\<lambda>y. hash_query c (fst y)) (tl (drop ?k xs @ [(q, resp, d)]))"
      unfolding map_tl using hs nh by simp
    show ?thesis
      unfolding set_all_snoc[of c empty_table xs q resp d, folded x] kk r e1 e2
      using wf' drop_snoc_tl[OF kle, of x] by (simp add: x set_all_snoc r)
  qed
qed

lemma FAQCache_set_length:
  assumes wf: "table_wf t" and cap: "0 \<le> max_size c"
  shows "int (length (rows (FAQCache_set c t q resp d)))
         = min (int (length (rows (upsert c t q resp d)))) (max_size c)"
  unfolding FAQCache_set_def by (rule cleanup_length[OF upsert_wf[OF wf] cap])

lemma cleanup_subset: "set (rows (cleanup_if_needed c t)) \<subseteq> set (rows t)"
  by (auto simp: cleanup_if_needed_def Let_def)

lemma upsert_hashes:
  "set (map query_hash (rows (upsert c t q resp d))) = insert (hash_query c q) (set (map query_hash (rows t)))"
proof (cases "hash_query c q \<in> set (map query_hash (rows t))")
  case True
  have "map (query_hash \<circ> (\<lambda>x. if query_hash x = hash_query c q
            then (touch d x)\<lparr>response := resp\<rparr> else x)) (rows t) = map query_hash (rows t)"
    by simp
  then have "map query_hash (rows (upsert c t q resp d)) = map query_hash (rows t)"
    using True by (simp add: upsert_def Let_def)
  then show ?thesis using True by auto
next
  case False
  then show ?thesis by (simp add: upsert_def Let_def new_row_def)
qed

lemma FAQCache_set_hashes:
  "set (map query_hash (rows (FAQCache_set c t q resp d)))
     \<subseteq> insert (hash_query c q) (set (map query_hash (rows t)))"
proof -
  have "set (map query_hash (rows (FAQCache_set c t q resp d)))
        \<subseteq> set (map query_hash (rows (upsert c t q resp d)))"
    unfolding FAQCache_set_def using cleanup_subset[of c "upsert c t q resp d"] by auto
  then show ?thesis unfolding upsert_hashes .
qed

lemma set_all_count:
  assumes cap: "0 \<le> max_size c"
    and dh: "distinct (map (\<lambda>y. hash_query c (fst y)) xs)"
  shows "table_wf (set_all c empty_table xs) \<and>
         set (map query_hash (rows (set_all c empty_table xs))) \<subseteq> set (map (\<lambda>y. hash_query c (fst y)) xs) \<and>
         int (length (rows (set_all c empty_table xs))) = min (int (length xs)) (max_size c)"
  using dh
proof (induction xs rule: rev_induct)
  case Nil
  show ?case using cap by (simp add: set_all_def empty_table_wf) (simp add: empty_table_def)
next
  case (snoc x xs)
  obtain q resp d where x: "x = (q, resp, d)" by (cases x) auto
  let ?t = "set_all c empty_table xs"
  have dh': "distinct (map (\<lambda>y. hash_query c (fst y)) xs)" using snoc.prems by simp
  note IH = snoc.IH[OF dh']
  have wf: "table_wf ?t" using IH by simp
  have sub: "set (map query_hash (rows ?t)) \<subseteq> set (map (\<lambda>y. hash_query c (fst y)) xs)"
    using IH by simp
  have len: "int (length (rows ?t)) = min (int (length xs)) (max_size c)" using IH by simp
  have fresh: "hash_query c q \<notin> set (map query_hash (rows ?t))"
    using snoc.prems x sub by auto
  have ul: "length (rows (upsert c ?t q resp d)) = length (rows ?t) + 1"
    using fresh by (simp add: upsert_length)
  have l': "int (length (rows (FAQCache_set c ?t q resp d))) = min (int (length (xs @ [x]))) (max_size c)"
    unfolding FAQCache_set_length[OF wf cap] ul using len by simp
  have s': "set (map query_hash (rows (FAQCache_set c ?t q resp d)))
            \<subseteq> set (map (\<lambda>y. hash_query c (fst y)) (xs @ [x]))"
    using FAQCache_set_hashes[of c ?t q resp d] sub x by auto
  show ?case
    unfolding x set_all_snoc using FAQCache_set_wf[OF wf] l' s' by (simp add: x)
qed

text \<open>
  Claim C5. After every \<open>set\<close> on a well-formed table with a non-negative cap, the table
  holds at most \<open>max_size\<close> rows, and every row the cleanup deleted was accessed no later
  than every row it kept. Inserting \<open>max_size + 5\<close> queries with distinct hashes into the
  empty table leaves exactly \<open>max_size\<close> rows; when the timestamps of the inserts strictly
  increase, the rows left are the last \<open>max_size\<close> inserted and the first five are absent.
\<close>

theorem FAQCache_set_eviction:
  assumes wf: "table_wf t" and cap: "0 \<le> max_size c"
  shows "int (length (rows (FAQCache_set c t q resp d))) \<le> max_size c \<and>
         (\<forall>x\<in>set (rows (upsert c t q resp d)). \<forall>y\<in>set (rows (FAQCache_set c t q resp d)).
            x \<notin> set (rows (FAQCache_set c t q resp d)) \<longrightarrow> last_accessed x \<le> last_accessed y) \<and>
         (length xs = nat (max_size c) + 5 \<and> distinct (map (\<lambda>y. hash_query c (fst y)) xs) \<longrightarrow>
            int (length (rows (set_all c empty_table xs))) = max_size c) \<and>
         (length xs = nat (max_size c) + 5 \<and> distinct (map (\<lambda>y. hash_query c (fst y)) xs) \<and>
          sorted_wrt (<) (map (\<lambda>y. snd (snd y)) xs) \<longrightarrow>
            map (\<lambda>r. (query r, response r, last_accessed r)) (rows (set_all c empty_table xs)) = drop 5 xs \<and>
            (\<forall>y\<in>set (take 5 xs).
               hash_query c (fst y) \<notin> set (map query_hash (rows (set_all c empty_table xs)))))"
proof (intro conjI ballI impI)
  show "int (length (rows (FAQCache_set c t q resp d))) \<le> max_size c"
    unfolding FAQCache_set_length[OF wf cap] by simp
next
  fix x y
  assume "x \<in> set (rows (upsert c t q resp d))"
    and "y \<in> set (rows (FAQCache_set c t q resp d))"
    and "x \<notin> set (rows (FAQCache_set c t q resp d))"
  then show "last_accessed x \<le> last_accessed y"
    unfolding FAQCache_set_def using cleanup_lru[OF upsert_wf[OF wf]] by blast
next
  assume "length xs = nat (max_size c) + 5 \<and> distinct (map (\<lambda>y. hash_query c (fst y)) xs)"
  then show "int (length (rows (set_all c empty_table xs))) = max_size c"
    using set_all_count[OF cap, of xs] cap by simp
next
  assume h: "length xs = nat (max_size c) + 5 \<and> distinct (map (\<lambda>y. hash_query c (fst y)) xs) \<and>
          sorted_wrt (<) (map (\<lambda>y. snd (snd y)) xs)"
  then show "map (\<lambda>r. (query r, response r, last_accessed r)) (rows (set_all c empty_table xs)) = drop 5 xs"
    using set_all_fresh_run[OF cap, of xs] by simp
next
  fix y
  assume h: "length xs = nat (max_size c) + 5 \<and> distinct (map (\<lambda>y. hash_query c (fst y)) xs) \<and>
          sorted_wrt (<) (map (\<lambda>y. snd (snd y)) xs)"
    and y: "y \<in> set (take 5 xs)"
  have hs: "map query_hash (rows (set_all c empty_table xs)) = map (\<lambda>y. hash_query c (fst y)) (drop 5 xs)"
    using set_all_fresh_run[OF cap, of xs] h by simp
  have "distinct (map (\<lambda>y. hash_query c (fst y)) (take 5 xs @ drop 5 xs))" using h by simp
  then have "set (map (\<lambda>y. hash_query c (fst y)) (take 5 xs)) \<inter> set (map (\<lambda>y. hash_query c (fst y)) (drop 5 xs)) = {}"
    unfolding map_append distinct_append by blast
  then show "hash_query c (fst y) \<notin> set (map query_hash (rows (set_all c empty_table xs)))"
    unfolding hs using y by auto
qed

lemma demo_table_wf: "table_wf demo_table"
  by (simp add: table_wf_def demo_table_def new_row_def)

theorem FAQCache_set_eviction_witness:
  "table_wf demo_table \<and> 0 \<le> max_size demo_cache \<and>
   length demo_inserts = nat (max_size demo_cache) + 5 \<and>
   distinct (map (\<lambda>y. hash_query demo_cache (fst y)) demo_inserts) \<and>
   sorted_wrt (<) (map (\<lambda>y. snd (snd y)) demo_inserts) \<and>
   int (length (rows (FAQCache_set demo_cache demo_table ''c'' ''rc'' 20))) \<le> 2 \<and>
   map (\<lambda>r. (query r, response r, last_accessed r)) (rows (set_all demo_cache empty_table demo_inserts))
     = [(''q6'', ''r6'', 6), (''q7'', ''r7'', 7)]"
proof -
  have cap: "0 \<le> max_size demo_cache" by (simp add: demo_cache_def)
  have len: "length demo_inserts = nat (max_size demo_cache) + 5"
    by (simp add: demo_cache_def demo_inserts_def)
  have dh: "distinct (map (\<lambda>y. hash_query demo_cache (fst y)) demo_inserts)"
    by code_simp
  have inc: "sorted_wrt (<) (map (\<lambda>y. snd (snd y)) demo_inserts)"
    by (simp add: demo_inserts_def)
  have d5: "drop 5 demo_inserts = [(''q6'', ''r6'', 6), (''q7'', ''r7'', 7)]"
    by (simp add: demo_inserts_def)
  show ?thesis
    using FAQCache_set_eviction[OF demo_table_wf cap, of "''c''" "''rc''" 20 demo_inserts]
      demo_table_wf cap len dh inc d5
    by (simp add: demo_cache_def)
qed

lemma hash_unique:
  assumes "table_wf t" "a \<in> set (rows t)" "b \<in> set (rows t)" "query_hash a = query_hash b"
  shows "a = b"
proof -
  have "inj_on query_hash (set (rows t))" using assms(1) by (simp add: table_wf_def distinct_map)
  then show ?thesis using assms(2-4) by (auto dest: inj_onD)
qed

lemma filter_key_single:
  "distinct (map f xs) \<Longrightarrow> x \<in> set xs \<Longrightarrow> filter (\<lambda>y. f y = f x) xs = [x]"
proof (induction xs)
  case Nil
  then show ?case by simp
next
  case (Cons a xs)
  show ?case
  proof (cases "a = x")
    case True
    have "f x \<notin> f ` set xs" using Cons.prems(1) True by simp
    then have "filter (\<lambda>y. f y = f x) xs = []"
      unfolding filter_empty_conv by (metis imageI)
    then show ?thesis using True by simp
  next
    case False
    then have x: "x \<in> set xs" using Cons.prems(2) by simp
    have "f a \<notin> f ` set xs" using Cons.prems(1) by simp
    then have "f a \<noteq> f x" using x by auto
    moreover have "filter (\<lambda>y. f y = f x) xs = [x]" using Cons.IH Cons.prems(1) x by simp
    ultimately show ?thesis by simp
  qed
qed

lemma filter_hash_single:
  assumes wf: "table_wf t" and e: "e \<in> set (rows t)"
  shows "filter (\<lambda>x. query_hash x = query_hash e) (rows t) = [e]"
  using wf e by (simp add: table_wf_def filter_key_single)

lemma upsert_response:
  assumes "e \<in> set (rows (upsert c t q resp d))" "query_hash e = hash_query c q"
  shows "response e = resp"
proof (cases "hash_query c q \<in> set (map query_hash (rows t))")
  case True
  then have "rows (upsert c t q resp d) = map (\<lambda>x. if query_hash x = hash_query c q
                                then (touch d x)\<lparr>response := resp\<rparr> else x) (rows t)"
    by (simp add: upsert_def Let_def)
  then obtain x where x: "x \<in> set (rows t)"
      "e = (if query_hash x = hash_query c q then (touch d x)\<lparr>response := resp\<rparr> else x)"
    using assms(1) by auto
  show ?thesis
  proof (cases "query_hash x = hash_query c q")
    case True then show ?thesis using x(2) by simp
  next
    case False then show ?thesis using x(2) assms(2) by simp
  qed
next
  case False
  then have "rows (upsert c t q resp d) = rows t @ [new_row (seq t + 1) (hash_query c q) q resp d]"
    by (simp add: upsert_def Let_def)
  then have "e \<in> set (rows t) \<or> e = new_row (seq t + 1) (hash_query c q) q resp d"
    using assms(1) by auto
  then show ?thesis
  proof
    assume "e \<in> set (rows t)"
    then show ?thesis using False assms(2) by (metis imageI set_map)
  next
    assume "e = new_row (seq t + 1) (hash_query c q) q resp d"
    then show ?thesis by (simp add: new_row_def)
  qed
qed

lemma FAQCache_set_response:
  assumes "e \<in> set (rows (FAQCache_set c t q resp d))" "query_hash e = hash_query c q"
  shows "response e = resp"
  using assms cleanup_subset[of c "upsert c t q resp d"] upsert_response[of e c t q resp d]
  unfolding FAQCache_set_def by blast

lemma FAQCache_set_again:
  assumes wf: "table_wf t" and len: "int (length (rows t)) \<le> max_size c"
    and e: "e \<in> set (rows t)" "query_hash e = hash_query c q"
  shows "rows (FAQCache_set c t q resp d) =
           map (\<lambda>x. if query_hash x = hash_query c q
                     then (touch d x)\<lparr>response := resp\<rparr> else x) (rows t)"
proof -
  have "hash_query c q \<in> set (map query_hash (rows t))" using e by force
  then have u: "upsert c t q resp d = t\<lparr>rows := map (\<lambda>x. if query_hash x = hash_query c q
                     then (touch d x)\<lparr>response := resp\<rparr> else x) (rows t), seq := seq t + 1\<rparr>"
    by (simp add: upsert_def Let_def)
  have "int (length (rows (upsert c t q resp d))) \<le> max_size c" unfolding u using len by simp
  then have "cleanup_if_needed c (upsert c t q resp d) = upsert c t q resp d"
    by (simp add: cleanup_if_needed_def Let_def)
  then show ?thesis unfolding FAQCache_set_def u by simp
qed

lemma filter_map_hash:
  assumes "\<And>x. query_hash (g x) = query_hash x"
  shows "filter (\<lambda>x. query_hash x = h) (map g rs) = map g (filter (\<lambda>x. query_hash x = h) rs)"
  using assms by (induction rs) auto

lemma set_twice:
  assumes wf: "table_wf t" and cap: "0 \<le> max_size c"
    and e: "e \<in> set (rows (FAQCache_set c t q resp d1))" "query_hash e = hash_query c q"
  shows "filter (\<lambda>x. query_hash x = hash_query c q)
           (rows (FAQCache_set c (FAQCache_set c t q resp d1) q resp d2))
         = [e\<lparr>hit_count := hit_count e + 1, last_accessed := d2\<rparr>]"
proof -
  let ?t1 = "FAQCache_set c t q resp d1"
  let ?g = "\<lambda>x. if query_hash x = hash_query c q then (touch d2 x)\<lparr>response := resp\<rparr> else x"
  have wf1: "table_wf ?t1" using wf by (rule FAQCache_set_wf)
  have len1: "int (length (rows ?t1)) \<le> max_size c"
    unfolding FAQCache_set_length[OF wf cap] by simp
  have r2: "rows (FAQCache_set c ?t1 q resp d2) = map ?g (rows ?t1)"
    by (rule FAQCache_set_again[OF wf1 len1 e])
  have keep: "\<And>x. query_hash (?g x) = query_hash x" by simp
  have f1: "filter (\<lambda>x. query_hash x = hash_query c q) (rows ?t1) = [e]"
    using filter_hash_single[OF wf1 e(1)] e(2) by simp
  have re: "response e = resp" by (rule FAQCache_set_response[OF e])
  have ge: "?g e = e\<lparr>hit_count := hit_count e + 1, last_accessed := d2\<rparr>"
    using e(2) re by (simp add: touch_def)
  show ?thesis
    unfolding r2 filter_map_hash[of ?g, OF keep] f1 using ge by simp
qed

lemma set_twice_empty:
  assumes cap: "1 \<le> max_size c"
  shows "map (\<lambda>x. (query_hash x, response x, hit_count x))
           (rows (FAQCache_set c (FAQCache_set c empty_table q resp d1) q resp d2))
         = [(hash_query c q, resp, 2)]"
proof -
  let ?n = "new_row 1 (hash_query c q) q resp d1"
  have u: "upsert c empty_table q resp d1 = \<lparr>rows = [?n], seq = 1\<rparr>"
    by (simp add: upsert_def Let_def empty_table_def)
  have t1: "FAQCache_set c empty_table q resp d1 = \<lparr>rows = [?n], seq = 1\<rparr>"
    unfolding FAQCache_set_def u using cap by (simp add: cleanup_if_needed_def Let_def)
  have wf1: "table_wf \<lparr>rows = [?n], seq = 1\<rparr>" by (simp add: table_wf_def new_row_def)
  have "rows (FAQCache_set c \<lparr>rows = [?n], seq = 1\<rparr> q resp d2)
        = map (\<lambda>x. if query_hash x = hash_query c q
                     then (touch d2 x)\<lparr>response := resp\<rparr> else x) [?n]"
    using FAQCache_set_again[OF wf1, of c ?n q resp d2] cap by (simp add: new_row_def)
  then show ?thesis unfolding t1 by (simp add: new_row_def touch_def)
qed

text \<open>
  Claim C7. \<open>set\<close> is an upsert on \<open>query_hash\<close>: when the entry written by \<open>set(q, r)\<close> is
  in the table, a second \<open>set(q, r)\<close> leaves exactly one row for the hash, the same row with
  \<open>hit_count\<close> one higher (from the empty table with a cap of at least one: one row with
  \<open>hit_count = 2\<close>); and after any sequence of \<open>get\<close>, \<open>set\<close> and \<open>invalidate\<close> calls on a
  well-formed table the \<open>query_hash\<close> values of the rows are pairwise distinct.
\<close>

theorem FAQCache_set_upsert_unique:
  assumes wf: "table_wf t" and cap: "0 \<le> max_size c"
  shows "(\<forall>e\<in>set (rows (FAQCache_set c t q resp d1)).
            query_hash e = hash_query c q \<longrightarrow>
            filter (\<lambda>x. query_hash x = hash_query c q)
              (rows (FAQCache_set c (FAQCache_set c t q resp d1) q resp d2))
            = [e\<lparr>hit_count := hit_count e + 1, last_accessed := d2\<rparr>]) \<and>
         (1 \<le> max_size c \<longrightarrow>
            map (\<lambda>x. (query_hash x, response x, hit_count x))
              (rows (FAQCache_set c (FAQCache_set c empty_table q resp d1) q resp d2))
            = [(hash_query c q, resp, 2)]) \<and>
         distinct (map query_hash (rows (cache_run c t ops)))"
proof (intro conjI ballI impI)
  fix e
  assume "e \<in> set (rows (FAQCache_set c t q resp d1))" "query_hash e = hash_query c q"
  then show "filter (\<lambda>x. query_hash x = hash_query c q)
              (rows (FAQCache_set c (FAQCache_set c t q resp d1) q resp d2))
            = [e\<lparr>hit_count := hit_count e + 1, last_accessed := d2\<rparr>]"
    by (rule set_twice[OF wf cap])
next
  assume "1 \<le> max_size c"
  then show "map (\<lambda>x. (query_hash x, response x, hit_count x))
              (rows (FAQCache_set c (FAQCache_set c empty_table q resp d1) q resp d2))
            = [(hash_query c q, resp, 2)]"
    by (rule set_twice_empty)
next
  show "distinct (map query_hash (rows (cache_run c t ops)))"
    using cache_run_wf[OF wf, of c ops] by (simp add: table_wf_def)
qed

theorem FAQCache_set_upsert_unique_witness:
  "table_wf demo_table \<and> 0 \<le> max_size demo_cache \<and> 1 \<le> max_size demo_cache \<and>
   rows (FAQCache_set demo_cache demo_table ''B'' ''new'' 20)
     = [new_row 1 ''a'' ''a'' ''ra'' 10,
        \<lparr>row_id = 2, query_hash = ''b'', query = ''b'', response = ''new'', hit_count = 2,
         created_at = 5, last_accessed = 20\<rparr>] \<and>
   filter (\<lambda>x. query_hash x = hash_query demo_cache ''B'')
     (rows (FAQCache_set demo_cache (FAQCache_set demo_cache demo_table ''B'' ''new'' 20) ''B'' ''new'' 30))
     = [\<lparr>row_id = 2, query_hash = ''b'', query = ''b'', response = ''new'', hit_count = 3,
         created_at = 5, last_accessed = 30\<rparr>] \<and>
   map (\<lambda>x. (query_hash x, response x, hit_count x))
     (rows (FAQCache_set demo_cache (FAQCache_set demo_cache empty_table ''B'' ''new'' 20) ''B'' ''new'' 30))
     = [(''b'', ''new'', 2)] \<and>
   distinct (map query_hash (rows (cache_run demo_cache demo_table
      [OpSet ''c'' ''rc'' 21, OpGet ''a'' 22 22, OpSet '' A '' ''ra2'' 23, OpInvalidate (Some ''c'')])))"
proof -
  have cap: "0 \<le> max_size demo_cache" by (simp add: demo_cache_def)
  have cap1: "1 \<le> max_size demo_cache" by (simp add: demo_cache_def)
  have h: "hash_query demo_cache ''B'' = ''b''" by code_simp
  have r1: "rows (FAQCache_set demo_cache demo_table ''B'' ''new'' 20)
     = [new_row 1 ''a'' ''a'' ''ra'' 10,
        \<lparr>row_id = 2, query_hash = ''b'', query = ''b'', response = ''new'', hit_count = 2,
         created_at = 5, last_accessed = 20\<rparr>]"
    by code_simp
  show ?thesis
    using FAQCache_set_upsert_unique[OF demo_table_wf cap, of "''B''" "''new''" 20 30
        "[OpSet ''c'' ''rc'' 21, OpGet ''a'' 22 22, OpSet '' A '' ''ra2'' 23, OpInvalidate (Some ''c'')]"]
      demo_table_wf cap cap1 r1 h
    by simp
qed

lemma FAQCache_get_miss:
  assumes wf: "table_wf t" and e: "e \<in> set (rows t)" "query_hash e = hash_query c q"
    and old: "created_at e \<le> py_now - timedelta_hours (ttl_hours c)"
  shows "FAQCache_get c t q py_now db_now = (None, t)"
proof -
  have "\<not> (\<exists>x. x \<in> set (rows t) \<and> query_hash x = hash_query c q \<and>
              py_now - timedelta_hours (ttl_hours c) < created_at x)"
  proof
    assume "\<exists>x. x \<in> set (rows t) \<and> query_hash x = hash_query c q \<and>
              py_now - timedelta_hours (ttl_hours c) < created_at x"
    then obtain x where x: "x \<in> set (rows t)" "query_hash x = hash_query c q"
      "py_now - timedelta_hours (ttl_hours c) < created_at x" by blast
    have "x = e" using hash_unique[OF wf x(1) e(1)] x(2) e(2) by simp
    then show False using x(3) old by simp
  qed
  then have "find (\<lambda>r. query_hash r = hash_query c q \<and>
              py_now - timedelta_hours (ttl_hours c) < created_at r) (rows t) = None"
    unfolding find_None_iff .
  then show ?thesis by (simp add: FAQCache_get_def Let_def)
qed

lemma FAQCache_get_hit:
  assumes wf: "table_wf t" and e: "e \<in> set (rows t)" "query_hash e = hash_query c q"
    and fresh: "py_now - timedelta_hours (ttl_hours c) < created_at e"
  shows "fst (FAQCache_get c t q py_now db_now) = Some (response e)"
proof -
  let ?P = "\<lambda>r. query_hash r = hash_query c q \<and>
              py_now - timedelta_hours (ttl_hours c) < created_at r"
  have "\<exists>x. x \<in> set (rows t) \<and> ?P x" using e fresh by blast
  then have "find ?P (rows t) \<noteq> None" unfolding find_None_iff by blast
  then obtain r where r: "find ?P (rows t) = Some r" by blast
  then have "r \<in> set (rows t)" "query_hash r = hash_query c q"
    unfolding find_Some_iff by auto
  then have "r = e" using hash_unique[OF wf _ e(1)] e(2) by simp
  then show ?thesis using r by (simp add: FAQCache_get_def Let_def)
qed

lemma FAQCache_get_ids:
  "map row_id (rows (snd (FAQCache_get c t q p d))) = map row_id (rows t)"
proof (cases "find (\<lambda>r. query_hash r = hash_query c q \<and> p - timedelta_hours (ttl_hours c) < created_at r) (rows t)")
  case None
  then show ?thesis by (simp add: FAQCache_get_def Let_def)
next
  case (Some r)
  have "map (row_id \<circ> (\<lambda>x. if query_hash x = hash_query c q then touch d x else x)) (rows t)
        = map row_id (rows t)" by simp
  then show ?thesis using Some by (simp add: FAQCache_get_def Let_def)
qed

lemma FAQCache_get_touches:
  assumes "fst (FAQCache_get c t q py_now db_now) = Some r"
  shows "snd (FAQCache_get c t q py_now db_now) =
           t\<lparr>rows := map (\<lambda>x. if query_hash x = hash_query c q
                               then x\<lparr>hit_count := hit_count x + 1, last_accessed := db_now\<rparr>
                               else x) (rows t)\<rparr>"
proof (cases "find (\<lambda>x. query_hash x = hash_query c q \<and>
                          py_now - timedelta_hours (ttl_hours c) < created_at x) (rows t)")
  case None
  then show ?thesis using assms by (simp add: FAQCache_get_def Let_def)
next
  case (Some e)
  have "(\<lambda>x. if query_hash x = hash_query c q then touch db_now x else x)
        = (\<lambda>x. if query_hash x = hash_query c q
                then x\<lparr>hit_count := hit_count x + 1, last_accessed := db_now\<rparr> else x)"
    unfolding touch_def ..
  then show ?thesis using Some by (simp add: FAQCache_get_def Let_def)
qed

lemma FAQCache_set_below_cap:
  "int (length (rows (upsert c t q r d))) \<le> max_size c \<Longrightarrow> FAQCache_set c t q r d = upsert c t q r d"
  by (simp add: FAQCache_set_def cleanup_if_needed_def Let_def)

lemma upsert_created_at:
  "map (\<lambda>x. (row_id x, created_at x)) (rows (upsert c t q r d))
   = map (\<lambda>x. (row_id x, created_at x)) (rows t) @
       (if hash_query c q \<in> set (map query_hash (rows t)) then [] else [(seq t + 1, d)])"
proof (cases "hash_query c q \<in> set (map query_hash (rows t))")
  case True
  have "map ((\<lambda>x. (row_id x, created_at x)) \<circ> (\<lambda>x. if query_hash x = hash_query c q
            then (touch d x)\<lparr>response := r\<rparr> else x)) (rows t)
        = map (\<lambda>x. (row_id x, created_at x)) (rows t)"
    by (simp add: touch_def)
  then show ?thesis using True by (simp add: upsert_def Let_def)
next
  case False
  then show ?thesis by (simp add: upsert_def Let_def new_row_def)
qed

text \<open>
  Expiry as \<open>get\<close> computes it. When the entry for the query's hash has \<open>created_at\<close> at or
  before the cutoff \<open>datetime.now() - ttl_hours\<close>, \<open>get\<close> returns a miss and leaves the
  table as it is, the row included. Nothing sweeps expired rows: \<open>get\<close> never removes a
  row, \<open>set\<close> removes rows only when the table is over its cap, and the upsert keeps every
  row with its \<open>created_at\<close>.
\<close>

theorem FAQCache_get_lazy_expiry:
  assumes wf: "table_wf t" and e: "e \<in> set (rows t)" "query_hash e = hash_query c q"
    and old: "created_at e \<le> py_now - timedelta_hours (ttl_hours c)"
  shows "FAQCache_get c t q py_now db_now = (None, t) \<and>
         map row_id (rows (snd (FAQCache_get c t q' p' d'))) = map row_id (rows t) \<and>
         (int (length (rows (upsert c t q' r' d'))) \<le> max_size c \<longrightarrow>
            FAQCache_set c t q' r' d' = upsert c t q' r' d') \<and>
         map (\<lambda>x. (row_id x, created_at x)) (rows (upsert c t q' r' d'))
           = map (\<lambda>x. (row_id x, created_at x)) (rows t) @
             (if hash_query c q' \<in> set (map query_hash (rows t)) then [] else [(seq t + 1, d')])"
  using FAQCache_get_miss[OF wf e old] FAQCache_get_ids FAQCache_set_below_cap upsert_created_at
  by blast

theorem FAQCache_get_lazy_expiry_witness:
  "table_wf demo_table \<and> new_row 2 ''b'' ''b'' ''rb'' 5 \<in> set (rows demo_table) \<and>
   query_hash (new_row 2 ''b'' ''b'' ''rb'' 5) = hash_query demo_cache '' B'' \<and>
   created_at (new_row 2 ''b'' ''b'' ''rb'' 5) \<le> 86400000005 - timedelta_hours (ttl_hours demo_cache) \<and>
   FAQCache_get demo_cache demo_table '' B'' 86400000005 86400000005 = (None, demo_table) \<and>
   fst (FAQCache_get demo_cache demo_table '' B'' 86400000004 86400000004) = Some ''rb''"
proof -
  have e: "new_row 2 ''b'' ''b'' ''rb'' 5 \<in> set (rows demo_table)" by (simp add: demo_table_def)
  have h: "query_hash (new_row 2 ''b'' ''b'' ''rb'' 5) = hash_query demo_cache '' B''" by code_simp
  have old: "created_at (new_row 2 ''b'' ''b'' ''rb'' 5) \<le> 86400000005 - timedelta_hours (ttl_hours demo_cache)"
    by (simp add: new_row_def timedelta_hours_def demo_cache_def)
  have hit: "fst (FAQCache_get demo_cache demo_table '' B'' 86400000004 86400000004) = Some ''rb''"
    by code_simp
  show ?thesis
    using FAQCache_get_lazy_expiry[OF demo_table_wf e h old, of 86400000005] demo_table_wf e h old hit
    by simp
qed

text \<open>
  Claim C8 does not hold of \<open>get\<close>. The cutoff is taken from \<open>datetime.now()\<close>, the local
  time of the process, and compared with \<open>created_at\<close>, which SQLite wrote in UTC. In a
  process whose zone is behind UTC, an entry that is older than \<open>ttl_hours\<close> at the instant
  of the lookup is still served, until its age reaches \<open>ttl_hours\<close> plus the distance of
  the zone from UTC. (\<open>get_stats\<close> takes both sides of its age test from SQLite's clock.)
\<close>

theorem FAQCache_get_serves_expired:
  assumes wf: "table_wf t" and e: "e \<in> set (rows t)" "query_hash e = hash_query c q"
    and older: "timedelta_hours (ttl_hours c) \<le> instant - created_at e"
    and west: "instant - created_at e < timedelta_hours (ttl_hours c) - utc_offset"
  shows "fst (FAQCache_get c t q (local_now utc_offset instant) db_now) = Some (response e) \<and>
         rows (snd (FAQCache_get c t q (local_now utc_offset instant) db_now)) =
           map (\<lambda>x. if query_hash x = hash_query c q
                     then x\<lparr>hit_count := hit_count x + 1, last_accessed := db_now\<rparr>
                     else x) (rows t)"
proof -
  have fresh: "local_now utc_offset instant - timedelta_hours (ttl_hours c) < created_at e"
    using west by (simp add: local_now_def)
  have hit: "fst (FAQCache_get c t q (local_now utc_offset instant) db_now) = Some (response e)"
    using wf e fresh by (rule FAQCache_get_hit)
  show ?thesis
    using hit FAQCache_get_touches[OF hit] by simp
qed

text \<open>An entry written at instant 0 is served 30 hours later, with a TTL of 24 hours, by a
  process eight hours behind UTC.\<close>

theorem FAQCache_get_serves_expired_witness:
  "table_wf (FAQCache_set demo_cache empty_table ''b'' ''rb'' 0) \<and>
   new_row 1 ''b'' ''b'' ''rb'' 0 \<in> set (rows (FAQCache_set demo_cache empty_table ''b'' ''rb'' 0)) \<and>
   query_hash (new_row 1 ''b'' ''b'' ''rb'' 0) = hash_query demo_cache ''b'' \<and>
   timedelta_hours (ttl_hours demo_cache) \<le> timedelta_hours 30 - created_at (new_row 1 ''b'' ''b'' ''rb'' 0) \<and>
   timedelta_hours 30 - created_at (new_row 1 ''b'' ''b'' ''rb'' 0)
     < timedelta_hours (ttl_hours demo_cache) - timedelta_hours (- 8) \<and>
   local_now (timedelta_hours (- 8)) (timedelta_hours 30) = timedelta_hours 22 \<and>
   FAQCache_get demo_cache (FAQCache_set demo_cache empty_table ''b'' ''rb'' 0) ''b''
     (timedelta_hours 22) (timedelta_hours 30)
   = (Some ''rb'',
      \<lparr>rows = [\<lparr>row_id = 1, query_hash = ''b'', query = ''b'', response = ''rb'', hit_count = 2,
                created_at = 0, last_accessed = 108000000000\<rparr>],
       seq = 1\<rparr>)"
proof -
  let ?t = "FAQCache_set demo_cache empty_table ''b'' ''rb'' 0"
  let ?e = "new_row 1 ''b'' ''b'' ''rb'' 0"
  have tab: "?t = \<lparr>rows = [?e], seq = 1\<rparr>" by code_simp
  have wf: "table_wf ?t" using empty_table_wf by (rule FAQCache_set_wf)
  have e: "?e \<in> set (rows ?t)" unfolding tab by simp
  have h: "query_hash ?e = hash_query demo_cache ''b''" by code_simp
  have older: "timedelta_hours (ttl_hours demo_cache) \<le> timedelta_hours 30 - created_at ?e"
    by (simp add: timedelta_hours_def demo_cache_def new_row_def)
  have west: "timedelta_hours 30 - created_at ?e
     < timedelta_hours (ttl_hours demo_cache) - timedelta_hours (- 8)"
    by (simp add: timedelta_hours_def demo_cache_def new_row_def)
  have clock: "local_now (timedelta_hours (- 8)) (timedelta_hours 30) = timedelta_hours 22"
    by (simp add: local_now_def timedelta_hours_def)
  note t = FAQCache_get_serves_expired[OF wf e h older west, of "timedelta_hours 30", unfolded clock]
  have r: "fst (FAQCache_get demo_cache ?t ''b'' (timedelta_hours 22) (timedelta_hours 30)) = Some ''rb''"
    using t by (simp add: new_row_def)
  have "rows (snd (FAQCache_get demo_cache ?t ''b'' (timedelta_hours 22) (timedelta_hours 30)))
        = map (\<lambda>x. if query_hash x = hash_query demo_cache ''b''
                     then x\<lparr>hit_count := hit_count x + 1, last_accessed := timedelta_hours 30\<rparr>
                     else x) (rows ?t)"
    using t by blast
  also have "\<dots> = [\<lparr>row_id = 1, query_hash = ''b'', query = ''b'', response = ''rb'', hit_count = 2,
                created_at = 0, last_accessed = 108000000000\<rparr>]"
    unfolding tab by code_simp
  finally have rs: "rows (snd (FAQCache_get demo_cache ?t ''b'' (timedelta_hours 22) (timedelta_hours 30)))
        = [\<lparr>row_id = 1, query_hash = ''b'', query = ''b'', response = ''rb'', hit_count = 2,
                created_at = 0, last_accessed = 108000000000\<rparr>]" .
  have sq: "seq (snd (FAQCache_get demo_cache ?t ''b'' (timedelta_hours 22) (timedelta_hours 30))) = 1"
    unfolding tab by (simp add: FAQCache_get_def Let_def split: option.split)
  have "snd (FAQCache_get demo_cache ?t ''b'' (timedelta_hours 22) (timedelta_hours 30))
        = \<lparr>rows = [\<lparr>row_id = 1, query_hash = ''b'', query = ''b'', response = ''rb'', hit_count = 2,
                created_at = 0, last_accessed = 108000000000\<rparr>],
           seq = 1\<rparr>"
    using rs sq by (cases "snd (FAQCache_get demo_cache ?t ''b'' (timedelta_hours 22) (timedelta_hours 30))") simp
  then have full: "FAQCache_get demo_cache ?t ''b'' (timedelta_hours 22) (timedelta_hours 30)
   = (Some ''rb'',
      \<lparr>rows = [\<lparr>row_id = 1, query_hash = ''b'', query = ''b'', response = ''rb'', hit_count = 2,
                created_at = 0, last_accessed = 108000000000\<rparr>],
       seq = 1\<rparr>)"
    using r by (cases "FAQCache_get demo_cache ?t ''b'' (timedelta_hours 22) (timedelta_hours 30)") simp
  show ?thesis
    using wf e h older west clock full by blast
qed

text \<open>In a process whose zone is ahead of UTC the same comparison expires entries early:
  an entry is a miss once its age has reached \<open>ttl_hours\<close> less the distance of the zone
  from UTC.\<close>

lemma FAQCache_get_expires_early:
  assumes wf: "table_wf t" and e: "e \<in> set (rows t)" "query_hash e = hash_query c q"
    and east: "timedelta_hours (ttl_hours c) - utc_offset \<le> instant - created_at e"
  shows "FAQCache_get c t q (local_now utc_offset instant) db_now = (None, t)"
proof -
  have "created_at e \<le> local_now utc_offset instant - timedelta_hours (ttl_hours c)"
    using east by (simp add: local_now_def)
  then show ?thesis by (rule FAQCache_get_miss[OF wf e])
qed

lemma hash_query_normalized:
  "normalize_query q1 = normalize_query q2 \<Longrightarrow> hash_query c q1 = hash_query c q2"
  by (simp add: hash_query_def)

lemma FAQCache_set_fresh_room:
  assumes fresh: "hash_query c q \<notin> set (map query_hash (rows t))"
    and room: "int (length (rows t)) < max_size c"
  shows "new_row (seq t + 1) (hash_query c q) q r d \<in> set (rows (FAQCache_set c t q r d))"
proof -
  have u: "rows (upsert c t q r d) = rows t @ [new_row (seq t + 1) (hash_query c q) q r d]"
    using fresh by (simp add: upsert_def Let_def)
  have "int (length (rows (upsert c t q r d))) \<le> max_size c" unfolding u using room by simp
  then have "FAQCache_set c t q r d = upsert c t q r d" by (rule FAQCache_set_below_cap)
  then show ?thesis using u by simp
qed

lemma FAQCache_get_after_update:
  assumes wf: "table_wf t" and e: "e \<in> set (rows t)" "query_hash e = hash_query c q2"
    and len: "int (length (rows t)) \<le> max_size c"
    and hq: "hash_query c q1 = hash_query c q2"
  shows "fst (FAQCache_get c (FAQCache_set c t q2 r d) q1 py_now db_now) =
           (if py_now - timedelta_hours (ttl_hours c) < created_at e then Some r else None)"
proof -
  let ?g = "\<lambda>x. if query_hash x = hash_query c q2 then (touch d x)\<lparr>response := r\<rparr> else x"
  let ?t' = "FAQCache_set c t q2 r d"
  have wf': "table_wf ?t'" using wf by (rule FAQCache_set_wf)
  have rs: "rows ?t' = map ?g (rows t)" by (rule FAQCache_set_again[OF wf len e])
  have e': "?g e \<in> set (rows ?t')" unfolding rs using e(1) by (simp del: touch_keys)
  have h': "query_hash (?g e) = hash_query c q1" using e(2) hq by simp
  have ca: "created_at (?g e) = created_at e" using e(2) by (simp add: touch_def)
  have re: "response (?g e) = r" using e(2) by simp
  show ?thesis
  proof (cases "py_now - timedelta_hours (ttl_hours c) < created_at e")
    case True
    then have "py_now - timedelta_hours (ttl_hours c) < created_at (?g e)" unfolding ca .
    then have "fst (FAQCache_get c ?t' q1 py_now db_now) = Some (response (?g e))"
      by (rule FAQCache_get_hit[OF wf' e' h'])
    then show ?thesis unfolding re using True by simp
  next
    case False
    then have "created_at (?g e) \<le> py_now - timedelta_hours (ttl_hours c)" unfolding ca by simp
    then have "FAQCache_get c ?t' q1 py_now db_now = (None, ?t')"
      by (rule FAQCache_get_miss[OF wf' e' h'])
    then show ?thesis using False by simp
  qed
qed


text \<open>Two lookups by a process on UTC, with a TTL of 24 hours. An entry inserted at 1 h is
  found at 24 h. An entry inserted at 0 h and set again at 10 h is not found at 30 h, 20
  hours after the second \<open>set\<close>.\<close>

lemma deadline_table:
  "FAQCache_set demo_cache empty_table ''what is the deadline?'' ''March 1'' 0
   = \<lparr>rows = [new_row 1 ''what is the deadline?'' ''what is the deadline?'' ''March 1'' 0], seq = 1\<rparr>"
  by code_simp



section \<open>Verification: generation adapter and intent router\<close>

lemma call_with_retry_log:
  "\<exists>k. requests (snd (call_with_retry prov m a prompt temp st))
          = requests st @ replicate k (prompt, temp) \<and>
       k \<le> m - a \<and> (a < m \<longrightarrow> 1 \<le> k) \<and>
       generate_calls (snd (call_with_retry prov m a prompt temp st)) = generate_calls st"
proof (induction prov m a prompt temp st rule: call_with_retry.induct)
  case (1 prov m a prompt temp st)
  show ?case
  proof (cases "a < m")
    case False
    have e: "call_with_retry prov m a prompt temp st = (Inr None, st)"
      using False by (subst call_with_retry.simps) simp
    show ?thesis unfolding e using False by (intro exI[of _ 0]) simp
  next
    case True
    let ?st1 = "st\<lparr>requests := requests st @ [(prompt, temp)]\<rparr>"
    show ?thesis
    proof (cases "prov (length (requests st)) prompt temp")
      case (Inr out)
      then have "call_with_retry prov m a prompt temp st = (Inr (Some out), ?st1)"
        using True by (subst call_with_retry.simps) (simp add: Let_def)
      then show ?thesis using True by (intro exI[of _ 1]) simp
    next
      case (Inl err)
      show ?thesis
      proof (cases "is_rate_limit err \<and> int a < int m - 1")
        case False
        then have "call_with_retry prov m a prompt temp st = (Inl err, ?st1)"
          using True Inl by (subst call_with_retry.simps) (auto simp: Let_def)
        then show ?thesis using True by (intro exI[of _ 1]) simp
      next
        case retry: True
        let ?st2 = "?st1\<lparr>sleeps := sleeps ?st1 @ [15 * (int a + 1)]\<rparr>"
        have eq: "call_with_retry prov m a prompt temp st
                  = call_with_retry prov m (a + 1) prompt temp ?st2"
          using True Inl retry by (subst call_with_retry.simps) (simp add: Let_def)
        obtain k where k: "requests (snd (call_with_retry prov m (a + 1) prompt temp ?st2))
              = requests ?st2 @ replicate k (prompt, temp)"
            "k \<le> m - (a + 1)"
            "generate_calls (snd (call_with_retry prov m (a + 1) prompt temp ?st2)) = generate_calls ?st2"
          using "1.IH"[OF True refl Inl retry] by blast
        have "requests (snd (call_with_retry prov m a prompt temp st))
              = requests st @ replicate (Suc k) (prompt, temp)"
          unfolding eq k(1) by (simp add: replicate_append_same)
        moreover have "Suc k \<le> m - a" using k(2) True by arith
        moreover have "generate_calls (snd (call_with_retry prov m a prompt temp st)) = generate_calls st"
          unfolding eq k(3) by simp
        ultimately show ?thesis by (intro exI[of _ "Suc k"]) simp
      qed
    qed
  qed
qed


lemma LLMClient_generate_snd:
  "snd (LLMClient_generate llm prompt temp st)
   = snd (call_with_retry (provider llm) 3 0 prompt temp (st\<lparr>generate_calls := generate_calls st + 1\<rparr>))"
proof -
  obtain r st' where r: "call_with_retry (provider llm) 3 0 prompt temp
      (st\<lparr>generate_calls := generate_calls st + 1\<rparr>) = (r, st')"
    by (cases "call_with_retry (provider llm) 3 0 prompt temp
      (st\<lparr>generate_calls := generate_calls st + 1\<rparr>)") auto
  show ?thesis
    unfolding LLMClient_generate_def r
    by (cases r) (simp_all split: option.splits)
qed

lemma LLMClient_generate_log:
  "\<exists>k. 1 \<le> k \<and> k \<le> 3 \<and>
       requests (snd (LLMClient_generate llm prompt temp st))
         = requests st @ replicate k (prompt, temp) \<and>
       generate_calls (snd (LLMClient_generate llm prompt temp st)) = generate_calls st + 1"
proof -
  let ?st0 = "st\<lparr>generate_calls := generate_calls st + 1\<rparr>"
  let ?r = "call_with_retry (provider llm) 3 0 prompt temp ?st0"
  have "\<exists>k. requests (snd ?r) = requests ?st0 @ replicate k (prompt, temp) \<and> k \<le> 3 \<and> 1 \<le> k \<and>
          generate_calls (snd ?r) = generate_calls ?st0"
    using call_with_retry_log[of "provider llm" 3 0 prompt temp ?st0] by simp
  then obtain k where k: "requests (snd ?r) = requests ?st0 @ replicate k (prompt, temp)"
     "k \<le> 3" "1 \<le> k" "generate_calls (snd ?r) = generate_calls ?st0"
    by (elim exE conjE)
  show ?thesis
    unfolding LLMClient_generate_snd using k by (intro exI[of _ k]) simp
qed

lemma classify_intent_fallback:
  assumes g: "\<not> re_match greeting_re (strip q)"
    and a: "\<not> list_ex (\<lambda>kw. sublist kw (lower (strip q))) admin_kw"
  shows "LLMClient_classify_intent llm q st =
           (let intent = lower (strip (fst (LLMClient_generate llm (classify_prompt (strip q)) (1 / 10) st)))
            in if intent \<in> set valid_intents then intent else ''qa'',
            snd (LLMClient_generate llm (classify_prompt (strip q)) (1 / 10) st))"
  using g a
  by (cases "LLMClient_generate llm (classify_prompt (strip q)) (1 / 10) st")
     (simp add: LLMClient_classify_intent_def Let_def)


lemma LLMClient_generate_first_ok:
  assumes "provider llm (length (requests st)) prompt temp = Inr out"
  shows "LLMClient_generate llm prompt temp st
         = (out, st\<lparr>generate_calls := generate_calls st + 1,
                       requests := requests st @ [(prompt, temp)]\<rparr>)"
  unfolding LLMClient_generate_def
  by (subst call_with_retry.simps) (simp add: assms Let_def)

lemma LLMClient_generate_retry_once:
  assumes "provider llm (length (requests st)) prompt temp = Inl err" "is_rate_limit err"
    and "provider llm (Suc (length (requests st))) prompt temp = Inr out"
  shows "LLMClient_generate llm prompt temp st
         = (out, st\<lparr>generate_calls := generate_calls st + 1,
                       requests := requests st @ [(prompt, temp), (prompt, temp)],
                       sleeps := sleeps st @ [15]\<rparr>)"
  unfolding LLMClient_generate_def
  by (subst call_with_retry.simps, simp add: assms Let_def)
     (subst call_with_retry.simps, simp add: assms Let_def)

lemma rate_limit_429: "is_rate_limit ''429 quota''"
  by code_simp

lemma Maybe_invalid: "lower (strip '' Maybe '') \<notin> set valid_intents"
  by code_simp

lemma ADMIN_valid: "lower (strip ''ADMIN '') = ''admin''"
  by code_simp

lemma greeting_Bonjour: "re_match greeting_re (strip ''Bonjour'')"
  by code_simp

lemma not_greeting_users: "\<not> re_match greeting_re (strip ''show me all users data'')"
  by code_simp

lemma admin_kw_users: "list_ex (\<lambda>kw. sublist kw (lower (strip ''show me all users data''))) admin_kw"
  by code_simp

lemma not_greeting_deadline: "\<not> re_match greeting_re (strip ''What is the deadline?'')"
  by code_simp

lemma not_admin_kw_deadline:
  "\<not> list_ex (\<lambda>kw. sublist kw (lower (strip ''What is the deadline?''))) admin_kw"
  by code_simp

lemma strip_deadline: "strip ''What is the deadline?'' = ''What is the deadline?''"
  by code_simp


lemma sublist_mid: "sublist x (ps @ x @ ss)"
  unfolding sublist_def by blast

lemma sublist_join:
  "x \<in> set xs \<Longrightarrow> sublist x (join sep xs)"
proof (induction sep xs rule: join.induct)
  case (1 sep)
  then show ?case by simp
next
  case (2 sep y)
  then show ?case by simp
next
  case (3 sep y z zs)
  show ?case
  proof (cases "x = y")
    case True
    then show ?thesis using sublist_mid[of y "[]" "sep @ join sep (z # zs)"] by simp
  next
    case False
    then have "sublist x (join sep (z # zs))" using 3 by simp
    then obtain ps ss where "join sep (z # zs) = ps @ x @ ss" unfolding sublist_def by blast
    then have "join sep (y # z # zs) = (y @ sep @ ps) @ x @ ss" by simp
    then show ?thesis using sublist_mid[of x "y @ sep @ ps" ss] by simp
  qed
qed

lemma reference_entry_in_block:
  assumes "i < length passages"
  shows "sublist (''[Reference '' @ str_nat (i + 1) @ '']: '' @ passages ! i) (reference_block passages)"
proof -
  let ?f = "\<lambda>(i, passage). ''[Reference '' @ str_nat (i + 1) @ '']: '' @ passage"
  have mem: "(i, passages ! i) \<in> set (enumerate 0 passages)"
    using assms by (simp add: in_set_enumerate_eq)
  have "?f (i, passages ! i) \<in> set (map ?f (enumerate 0 passages))"
    unfolding set_map using mem by (rule imageI)
  then have "sublist (?f (i, passages ! i)) (join ''\<newline>\<newline>'' (map ?f (enumerate 0 passages)))"
    by (rule sublist_join)
  then show ?thesis unfolding reference_block_def by (simp only: prod.case)
qed

lemma reference_block_in_prompt:
  "sublist (reference_block passages) (assemble_prompt sp passages history q)"
  unfolding assemble_prompt_def Let_def
  using sublist_mid[of "reference_block passages" "''\<newline>'' @ sp @ ''\<newline>\<newline>REFERENCE INFORMATION:\<newline>''"]
  by simp

lemma py_prefix_nonneg:
  "0 \<le> n \<Longrightarrow> n < int (length xs) \<Longrightarrow>
     py_prefix n xs = take (nat n) xs \<and> int (length (py_prefix n xs)) = n"
  by (simp add: py_prefix_def)

lemma reference_block_indexed:
  "reference_block passages =
     join ''\<newline>\<newline>''
       (map (\<lambda>i. ''[Reference '' @ str_nat (i + 1) @ '']: '' @ passages ! i) [0..<length passages])"
proof -
  have "map (\<lambda>(i, passage). ''[Reference '' @ str_nat (i + 1) @ '']: '' @ passage) (enumerate 0 passages)
        = map (\<lambda>i. ''[Reference '' @ str_nat (i + 1) @ '']: '' @ passages ! i) [0..<length passages]"
    by (rule nth_equalityI) (simp_all add: nth_enumerate_eq)
  then show ?thesis unfolding reference_block_def by simp
qed

lemma history_block_last_five:
  "history_block history =
     concat (map (\<lambda>turn. ''User: '' @ turn_user turn @ ''\<newline>'' @
                          ''Assistant: '' @ turn_assistant turn @ ''\<newline>\<newline>'')
                 (drop (length history - 5) history))"
proof -
  have "nat (int (length history) + - 5) = length history - 5" by simp
  then show ?thesis unfolding history_block_def py_suffix_def by simp
qed

lemma history_block_empty: "history_block history = [] \<longleftrightarrow> history = []"
  unfolding history_block_last_five by (cases history) auto

lemma assemble_prompt_shape:
  "assemble_prompt sp passages history q =
     ''\<newline>'' @ sp @
     ''\<newline>\<newline>REFERENCE INFORMATION:\<newline>'' @
     join ''\<newline>\<newline>''
       (map (\<lambda>i. ''[Reference '' @ str_nat (i + 1) @ '']: '' @ passages ! i) [0..<length passages]) @
     ''\<newline>\<newline>'' @
     (if history = [] then [] else ''PREVIOUS CONVERSATION:'') @
     ''\<newline>'' @
     concat (map (\<lambda>turn. ''User: '' @ turn_user turn @ ''\<newline>'' @
                          ''Assistant: '' @ turn_assistant turn @ ''\<newline>\<newline>'')
                 (drop (length history - 5) history)) @
     ''\<newline>\<newline>USER QUESTION: '' @ q @
     ''\<newline>\<newline>Provide a helpful, accurate response based on the reference information above.\<newline>''"
proof -
  have h: "(if history_block history \<noteq> [] then ''PREVIOUS CONVERSATION:'' else [])
           = (if history = [] then [] else ''PREVIOUS CONVERSATION:'')"
    by (simp add: history_block_empty)
  show ?thesis
    unfolding assemble_prompt_def Let_def h
    unfolding reference_block_indexed history_block_last_five by simp
qed

text \<open>
  Claim C9. When the assembled prompt is longer than \<open>max_context\<close>, every request that
  \<open>generate_with_context\<close> sends to the provider carries the slice
  \<open>prompt[:max_context]\<close> (for a non-negative budget: exactly the first \<open>max_context\<close>
  characters of the assembly) followed by a line break and the text
  \<open>[Context truncated due to length]\<close>, in one call of \<open>generate\<close>. The assembly that is
  cut is, in this order: the system prompt, the heading \<open>REFERENCE INFORMATION:\<close> with the
  entries \<open>[Reference i]: passage\<close> of all passages, numbered from 1 in the order given and
  separated by blank lines, the heading \<open>PREVIOUS CONVERSATION:\<close> (when there is history)
  with the \<open>User:\<close> and \<open>Assistant:\<close> lines of the last five turns, and the line
  \<open>USER QUESTION:\<close> with the query. So the assembly keeps every passage: the numbered
  entry of each passage occurs in the reference block, and the reference block occurs in
  the assembled prompt.
\<close>

theorem generate_with_context_truncation:
  assumes over: "int (length (assemble_prompt sp passages history q)) > max_context llm"
    and sp: "sp = (case system_prompt of None \<Rightarrow> default_university_prompt | Some p \<Rightarrow> p)"
  shows "(\<exists>k. 1 \<le> k \<and> k \<le> 3 \<and>
            requests (snd (LLMClient_generate_with_context llm q passages history system_prompt st))
              = requests st @
                replicate k (py_prefix (max_context llm) (assemble_prompt sp passages history q)
                               @ ''\<newline>[Context truncated due to length]'', 7 / 10)) \<and>
         generate_calls (snd (LLMClient_generate_with_context llm q passages history system_prompt st))
           = generate_calls st + 1 \<and>
         (0 \<le> max_context llm \<longrightarrow>
            py_prefix (max_context llm) (assemble_prompt sp passages history q)
              = take (nat (max_context llm)) (assemble_prompt sp passages history q) \<and>
            int (length (py_prefix (max_context llm) (assemble_prompt sp passages history q)))
              = max_context llm) \<and>
         assemble_prompt sp passages history q =
           ''\<newline>'' @ sp @
           ''\<newline>\<newline>REFERENCE INFORMATION:\<newline>'' @
           join ''\<newline>\<newline>''
             (map (\<lambda>i. ''[Reference '' @ str_nat (i + 1) @ '']: '' @ passages ! i)
                  [0..<length passages]) @
           ''\<newline>\<newline>'' @
           (if history = [] then [] else ''PREVIOUS CONVERSATION:'') @
           ''\<newline>'' @
           concat (map (\<lambda>turn. ''User: '' @ turn_user turn @ ''\<newline>'' @
                                ''Assistant: '' @ turn_assistant turn @ ''\<newline>\<newline>'')
                       (drop (length history - 5) history)) @
           ''\<newline>\<newline>USER QUESTION: '' @ q @
           ''\<newline>\<newline>Provide a helpful, accurate response based on the reference information above.\<newline>'' \<and>
         sublist (reference_block passages) (assemble_prompt sp passages history q) \<and>
         (\<forall>i<length passages.
            sublist (''[Reference '' @ str_nat (i + 1) @ '']: '' @ passages ! i)
                    (reference_block passages))"
proof -
  let ?a = "assemble_prompt sp passages history q"
  let ?m = "''\<newline>[Context truncated due to length]''"
  have g: "LLMClient_generate_with_context llm q passages history system_prompt st
           = LLMClient_generate llm (py_prefix (max_context llm) ?a @ ?m) (7 / 10) st"
    using over
    by (simp add: LLMClient_generate_with_context_def Let_def truncate_prompt_def
                  truncation_marker_def sp)
  have c1: "\<exists>k. 1 \<le> k \<and> k \<le> 3 \<and>
            requests (snd (LLMClient_generate_with_context llm q passages history system_prompt st))
              = requests st @ replicate k (py_prefix (max_context llm) ?a @ ?m, 7 / 10)"
    unfolding g
    using LLMClient_generate_log[of llm "py_prefix (max_context llm) ?a @ ?m" "7 / 10" st]
    by blast
  have c2: "generate_calls (snd (LLMClient_generate_with_context llm q passages history system_prompt st))
           = generate_calls st + 1"
    unfolding g
    using LLMClient_generate_log[of llm "py_prefix (max_context llm) ?a @ ?m" "7 / 10" st]
    by blast
  have c3: "0 \<le> max_context llm \<longrightarrow>
            py_prefix (max_context llm) ?a = take (nat (max_context llm)) ?a \<and>
            int (length (py_prefix (max_context llm) ?a)) = max_context llm"
    using py_prefix_nonneg[of "max_context llm" ?a] over by blast
  have c5: "sublist (reference_block passages) ?a"
    by (rule reference_block_in_prompt)
  have c6: "\<forall>i<length passages.
            sublist (''[Reference '' @ str_nat (i + 1) @ '']: '' @ passages ! i)
                    (reference_block passages)"
    using reference_entry_in_block[of _ passages] by blast
  show ?thesis
    using c1 c2 c3 assemble_prompt_shape[of sp passages history q] c5 c6
    by (intro conjI)
qed

lemma tiny_prompt_over:
  "int (length (assemble_prompt ''SYS'' [''p1'', ''p2''] six_turns ''Q?'')) > max_context tiny_llm"
  by code_simp

lemma tiny_prompt_cut:
  "py_prefix (max_context tiny_llm) (assemble_prompt ''SYS'' [''p1'', ''p2''] six_turns ''Q?'')
   = ''\<newline>SYS\<newline>\<newline>REFERENCE INFORMATION:\<newline>[Reference 1]: p1\<newline>\<newline>[Reference 2]: p2\<newline>\<newline>PREVIOUS CONVERSATION:\<newline>User: u2\<newline>A''"
  by code_simp

lemma tiny_prompt_shape:
  "''\<newline>'' @ ''SYS'' @
   ''\<newline>\<newline>REFERENCE INFORMATION:\<newline>'' @
   join ''\<newline>\<newline>''
     (map (\<lambda>i. ''[Reference '' @ str_nat (i + 1) @ '']: '' @ [''p1'', ''p2''] ! i)
          [0..<length [''p1'', ''p2'']]) @
   ''\<newline>\<newline>'' @
   (if six_turns = [] then [] else ''PREVIOUS CONVERSATION:'') @
   ''\<newline>'' @
   concat (map (\<lambda>turn. ''User: '' @ turn_user turn @ ''\<newline>'' @
                        ''Assistant: '' @ turn_assistant turn @ ''\<newline>\<newline>'')
               (drop (length six_turns - 5) six_turns)) @
   ''\<newline>\<newline>USER QUESTION: '' @ ''Q?'' @
   ''\<newline>\<newline>Provide a helpful, accurate response based on the reference information above.\<newline>''
   = ''\<newline>SYS\<newline>\<newline>REFERENCE INFORMATION:\<newline>[Reference 1]: p1\<newline>\<newline>[Reference 2]: p2\<newline>\<newline>PREVIOUS CONVERSATION:\<newline>User: u2\<newline>Assistant: a2\<newline>\<newline>User: u3\<newline>Assistant: a3\<newline>\<newline>User: u4\<newline>Assistant: a4\<newline>\<newline>User: u5\<newline>Assistant: a5\<newline>\<newline>User: u6\<newline>Assistant: a6\<newline>\<newline>\<newline>\<newline>USER QUESTION: Q?\<newline>\<newline>Provide a helpful, accurate response based on the reference information above.\<newline>''"
  by code_simp

theorem generate_with_context_truncation_witness:
  "int (length (assemble_prompt ''SYS'' [''p1'', ''p2''] six_turns ''Q?'')) > max_context tiny_llm \<and>
   ''SYS'' = (case Some ''SYS'' of None \<Rightarrow> default_university_prompt | Some p \<Rightarrow> p) \<and>
   0 \<le> max_context tiny_llm \<and>
   LLMClient_generate_with_context tiny_llm ''Q?'' [''p1'', ''p2''] six_turns (Some ''SYS'') llm_state0
     = (''ok'', \<lparr>generate_calls = 1,
          requests = [(''\<newline>SYS\<newline>\<newline>REFERENCE INFORMATION:\<newline>[Reference 1]: p1\<newline>\<newline>[Reference 2]: p2\<newline>\<newline>PREVIOUS CONVERSATION:\<newline>User: u2\<newline>A\<newline>[Context truncated due to length]'', 7 / 10)],
          sleeps = []\<rparr>) \<and>
   int (length (py_prefix (max_context tiny_llm) (assemble_prompt ''SYS'' [''p1'', ''p2''] six_turns ''Q?''))) = 100 \<and>
   assemble_prompt ''SYS'' [''p1'', ''p2''] six_turns ''Q?''
     = ''\<newline>SYS\<newline>\<newline>REFERENCE INFORMATION:\<newline>[Reference 1]: p1\<newline>\<newline>[Reference 2]: p2\<newline>\<newline>PREVIOUS CONVERSATION:\<newline>User: u2\<newline>Assistant: a2\<newline>\<newline>User: u3\<newline>Assistant: a3\<newline>\<newline>User: u4\<newline>Assistant: a4\<newline>\<newline>User: u5\<newline>Assistant: a5\<newline>\<newline>User: u6\<newline>Assistant: a6\<newline>\<newline>\<newline>\<newline>USER QUESTION: Q?\<newline>\<newline>Provide a helpful, accurate response based on the reference information above.\<newline>'' \<and>
   sublist (reference_block [''p1'', ''p2'']) (assemble_prompt ''SYS'' [''p1'', ''p2''] six_turns ''Q?'')"
proof -
  let ?a = "assemble_prompt ''SYS'' [''p1'', ''p2''] six_turns ''Q?''"
  let ?m = "''\<newline>[Context truncated due to length]''"
  have sp: "''SYS'' = (case Some ''SYS'' of None \<Rightarrow> default_university_prompt | Some p \<Rightarrow> p)"
    by simp
  have cap: "0 \<le> max_context tiny_llm" by (simp add: tiny_llm_def)
  note t = generate_with_context_truncation[OF tiny_prompt_over sp, of llm_state0]
  have "int (length (py_prefix (max_context tiny_llm) ?a)) = max_context tiny_llm"
    using t cap by blast
  then have len: "int (length (py_prefix (max_context tiny_llm) ?a)) = 100"
    by (simp add: tiny_llm_def)
  have sub: "sublist (reference_block [''p1'', ''p2'']) ?a" using t by blast
  note shape = t[THEN conjunct2, THEN conjunct2, THEN conjunct2, THEN conjunct1]
  note whole = shape[unfolded tiny_prompt_shape]
  obtain k where k: "1 \<le> k" "k \<le> 3"
    and sent: "requests (snd (LLMClient_generate_with_context tiny_llm ''Q?'' [''p1'', ''p2''] six_turns
                                (Some ''SYS'') llm_state0))
               = requests llm_state0 @ replicate k (py_prefix (max_context tiny_llm) ?a @ ?m, 7 / 10)"
    using t by blast
  have g: "LLMClient_generate_with_context tiny_llm ''Q?'' [''p1'', ''p2''] six_turns (Some ''SYS'') llm_state0
           = LLMClient_generate tiny_llm (truncate_prompt (max_context tiny_llm) ?a) (7 / 10) llm_state0"
    by (simp add: LLMClient_generate_with_context_def Let_def)
  have r: "LLMClient_generate_with_context tiny_llm ''Q?'' [''p1'', ''p2''] six_turns (Some ''SYS'') llm_state0
     = (''ok'', \<lparr>generate_calls = 1,
          requests = [(truncate_prompt (max_context tiny_llm) ?a, 7 / 10)],
          sleeps = []\<rparr>)"
    unfolding g
    by (subst LLMClient_generate_first_ok[of _ _ _ _ "''ok''"])
       (simp_all add: tiny_llm_def llm_state0_def)
  have "[(truncate_prompt (max_context tiny_llm) ?a, 7 / 10 :: rat)]
        = replicate k (py_prefix (max_context tiny_llm) ?a @ ?m, 7 / 10)"
    using sent unfolding r by (simp add: llm_state0_def)
  then have "truncate_prompt (max_context tiny_llm) ?a = py_prefix (max_context tiny_llm) ?a @ ?m"
    using k by (cases k) auto
  then have r': "LLMClient_generate_with_context tiny_llm ''Q?'' [''p1'', ''p2''] six_turns (Some ''SYS'') llm_state0
     = (''ok'', \<lparr>generate_calls = 1,
          requests = [(py_prefix (max_context tiny_llm) ?a @ ?m, 7 / 10)],
          sleeps = []\<rparr>)"
    using r by simp
  show ?thesis
    using tiny_prompt_over sp cap r'[unfolded tiny_prompt_cut] len whole sub by simp
qed

section \<open>Verification: embedding adapters\<close>

lemma embed_state_same [simp]:
  "st\<lparr>embed_requests := embed_requests st, embed_sleeps := embed_sleeps st\<rparr> = st"
  by simp

lemma embed_with_retry_exhausted:
  assumes rl: "\<And>n. \<exists>err. prov n tx = Inl err \<and> is_rate_limit err"
  shows "embed_with_retry prov m a tx st =
           (None, st\<lparr>embed_requests := embed_requests st @ replicate (m - a) tx,
                      embed_sleeps := embed_sleeps st @ map (\<lambda>i. 30 * (int i + 1)) [a..<m]\<rparr>)"
  using rl
proof (induction prov m a tx st rule: embed_with_retry.induct)
  case (1 prov m a tx st)
  show ?case
  proof (cases "a < m")
    case False
    then show ?thesis by (subst embed_with_retry.simps) simp
  next
    case True
    obtain err where err: "prov (length (embed_requests st)) tx = Inl err" "is_rate_limit err"
      using "1.prems" by blast
    let ?st2 = "st\<lparr>embed_requests := embed_requests st @ [tx],
                     embed_sleeps := embed_sleeps st @ [30 * (int a + 1)]\<rparr>"
    have step: "embed_with_retry prov m a tx st = embed_with_retry prov m (a + 1) tx ?st2"
      using True err by (subst embed_with_retry.simps) (simp add: Let_def)
    have IH: "embed_with_retry prov m (a + 1) tx ?st2 =
           (None, ?st2\<lparr>embed_requests := embed_requests ?st2 @ replicate (m - (a + 1)) tx,
                      embed_sleeps := embed_sleeps ?st2 @ map (\<lambda>i. 30 * (int i + 1)) [a + 1..<m]\<rparr>)"
      using "1.IH"[OF True refl err(1) err(2)] "1.prems" by simp
    have r: "replicate (m - a) tx = tx # replicate (m - (a + 1)) tx"
      using True by (cases "m - a") simp_all
    have u: "[a..<m] = a # [a + 1..<m]" using True by (simp add: upt_conv_Cons)
    show ?thesis unfolding step IH r u by simp
  qed
qed

lemma embed_with_retry_error_after:
  assumes "a + k < m"
    and "\<And>i. i < k \<Longrightarrow> \<exists>err. prov (length (embed_requests st) + i) tx = Inl err \<and> is_rate_limit err"
    and "\<exists>err. prov (length (embed_requests st) + k) tx = Inl err \<and> \<not> is_rate_limit err"
  shows "embed_with_retry prov m a tx st =
           (None, st\<lparr>embed_requests := embed_requests st @ replicate (k + 1) tx,
                      embed_sleeps := embed_sleeps st @ map (\<lambda>i. 30 * (int i + 1)) [a..<a + k]\<rparr>)"
  using assms
proof (induction k arbitrary: a st)
  case 0
  then obtain err where "prov (length (embed_requests st)) tx = Inl err" "\<not> is_rate_limit err"
    by auto
  then show ?case using 0(1) by (subst embed_with_retry.simps) (simp add: Let_def)
next
  case (Suc k)
  obtain err where err: "prov (length (embed_requests st)) tx = Inl err" "is_rate_limit err"
    using Suc.prems(2)[of 0] by auto
  let ?st2 = "st\<lparr>embed_requests := embed_requests st @ [tx],
                   embed_sleeps := embed_sleeps st @ [30 * (int a + 1)]\<rparr>"
  have step: "embed_with_retry prov m a tx st = embed_with_retry prov m (a + 1) tx ?st2"
    using Suc.prems(1) err by (subst embed_with_retry.simps) (simp add: Let_def)
  have p1: "a + 1 + k < m" using Suc.prems(1) by simp
  have p2: "\<exists>err. prov (length (embed_requests ?st2) + i) tx = Inl err \<and> is_rate_limit err"
    if "i < k" for i
    using Suc.prems(2)[of "Suc i"] that by simp
  have p3: "\<exists>err. prov (length (embed_requests ?st2) + k) tx = Inl err \<and> \<not> is_rate_limit err"
    using Suc.prems(3) by simp
  have IH: "embed_with_retry prov m (a + 1) tx ?st2 =
           (None, ?st2\<lparr>embed_requests := embed_requests ?st2 @ replicate (k + 1) tx,
                      embed_sleeps := embed_sleeps ?st2 @ map (\<lambda>i. 30 * (int i + 1)) [a + 1..<a + 1 + k]\<rparr>)"
    using Suc.IH[OF p1 p2 p3] by blast
  have u: "[a..<a + Suc k] = a # [a + 1..<a + 1 + k]" by (simp add: upt_conv_Cons)
  show ?case unfolding step IH u by (simp add: replicate_append_same)
qed

lemma embed_with_retry_fails:
  assumes "\<And>n. \<exists>err. prov n tx = Inl err"
  shows "fst (embed_with_retry prov m a tx st) = None"
  using assms
proof (induction prov m a tx st rule: embed_with_retry.induct)
  case (1 prov m a tx st)
  show ?case
  proof (cases "a < m")
    case False
    then show ?thesis by (subst embed_with_retry.simps) simp
  next
    case True
    obtain err where err: "prov (length (embed_requests st)) tx = Inl err"
      using "1.prems" by blast
    show ?thesis
    proof (cases "is_rate_limit err")
      case False
      then show ?thesis using True err by (subst embed_with_retry.simps) (simp add: Let_def)
    next
      case rl: True
      let ?st2 = "st\<lparr>embed_requests := embed_requests st @ [tx],
                       embed_sleeps := embed_sleeps st @ [30 * (int a + 1)]\<rparr>"
      have step: "embed_with_retry prov m a tx st = embed_with_retry prov m (a + 1) tx ?st2"
        using True err rl by (subst embed_with_retry.simps) (simp add: Let_def)
      have "fst (embed_with_retry prov m (a + 1) tx ?st2) = None"
        using "1.IH"[OF True refl err rl] "1.prems" by simp
      then show ?thesis unfolding step .
    qed
  qed
qed

lemma embed_each_length: "length (fst (embed_each prov input st)) = length input"
proof (induction input arbitrary: st)
  case Nil
  show ?case by simp
next
  case (Cons tx rest)
  obtain e st1 where r1: "embed_with_retry prov 5 0 tx st = (e, st1)"
    by (cases "embed_with_retry prov 5 0 tx st") auto
  obtain es st2 where r2: "embed_each prov rest st1 = (es, st2)"
    by (cases "embed_each prov rest st1") auto
  show ?case using Cons.IH[of st1] r1 r2 by simp
qed

lemma embed_each_nth:
  "i < length input \<Longrightarrow>
   fst (embed_each prov input st) ! i =
     fst (embed_with_retry prov 5 0 (input ! i) (snd (embed_each prov (take i input) st)))"
proof (induction input arbitrary: st i)
  case Nil
  then show ?case by simp
next
  case (Cons tx rest)
  obtain e st1 where r1: "embed_with_retry prov 5 0 tx st = (e, st1)"
    by (cases "embed_with_retry prov 5 0 tx st") auto
  obtain es st2 where r2: "embed_each prov rest st1 = (es, st2)"
    by (cases "embed_each prov rest st1") auto
  show ?case
  proof (cases i)
    case 0
    then show ?thesis using r1 r2 by simp
  next
    case (Suc j)
    then have j: "j < length rest" using Cons.prems by simp
    obtain es' st3 where r3: "embed_each prov (take j rest) st1 = (es', st3)"
      by (cases "embed_each prov (take j rest) st1") auto
    have "fst (embed_each prov rest st1) ! j =
          fst (embed_with_retry prov 5 0 (rest ! j) (snd (embed_each prov (take j rest) st1)))"
      using j by (rule Cons.IH)
    then show ?thesis using Suc r1 r2 r3 by simp
  qed
qed

lemma GeminiEmbeddingFunction_call_raises:
  "fst (GeminiEmbeddingFunction_call prov input st) = Inl ''Some embeddings failed. Please retry.'' \<longleftrightarrow>
   (\<exists>i<length input.
      fst (embed_with_retry prov 5 0 (input ! i) (snd (embed_each prov (take i input) st))) = None)"
proof -
  obtain es st' where r: "embed_each prov input st = (es, st')"
    by (cases "embed_each prov input st") auto
  have es: "es = fst (embed_each prov input st)" using r by simp
  have len: "length es = length input" unfolding es by (rule embed_each_length)
  have "fst (GeminiEmbeddingFunction_call prov input st) = Inl ''Some embeddings failed. Please retry.''
        \<longleftrightarrow> None \<in> set es"
    using r by (auto simp: GeminiEmbeddingFunction_call_def list_ex_iff)
  also have "\<dots> \<longleftrightarrow> (\<exists>i<length input. es ! i = None)"
    unfolding in_set_conv_nth len by blast
  also have "\<dots> \<longleftrightarrow> (\<exists>i<length input.
      fst (embed_with_retry prov 5 0 (input ! i) (snd (embed_each prov (take i input) st))) = None)"
    unfolding es using embed_each_nth[of _ input prov st] by auto
  finally show ?thesis .
qed

lemma GeminiEmbeddingFunction_call_failing_text:
  assumes "tx \<in> set input" and "\<And>n. \<exists>err. prov n tx = Inl err"
  shows "fst (GeminiEmbeddingFunction_call prov input st) = Inl ''Some embeddings failed. Please retry.''"
proof -
  obtain i where i: "i < length input" "input ! i = tx"
    using assms(1) unfolding in_set_conv_nth by blast
  have "fst (embed_with_retry prov 5 0 (input ! i) (snd (embed_each prov (take i input) st))) = None"
    unfolding i(2) using assms(2) by (rule embed_with_retry_fails)
  then show ?thesis unfolding GeminiEmbeddingFunction_call_raises using i(1) by blast
qed

lemma GeminiEmbeddings_call_log:
  "length (fst (GeminiEmbeddings_call prov ts st)) = length ts \<and>
   embed_requests (snd (GeminiEmbeddings_call prov ts st)) = embed_requests st @ ts \<and>
   embed_sleeps (snd (GeminiEmbeddings_call prov ts st)) = embed_sleeps st"
proof (induction ts arbitrary: st)
  case Nil
  show ?case by simp
next
  case (Cons tx ts)
  let ?st1 = "st\<lparr>embed_requests := embed_requests st @ [tx]\<rparr>"
  obtain es st2 where r: "GeminiEmbeddings_call prov ts ?st1 = (es, st2)"
    by (cases "GeminiEmbeddings_call prov ts ?st1") auto
  show ?case using Cons.IH[of ?st1] r by (simp add: Let_def)
qed

lemma GeminiEmbeddings_call_nth:
  "i < length ts \<Longrightarrow>
   fst (GeminiEmbeddings_call prov ts st) ! i =
     (case prov (length (embed_requests st) + i) (ts ! i) of
        Inr values \<Rightarrow> values
      | Inl err \<Rightarrow> replicate embedding_dim 0)"
proof (induction ts arbitrary: st i)
  case Nil
  then show ?case by simp
next
  case (Cons tx ts)
  let ?st1 = "st\<lparr>embed_requests := embed_requests st @ [tx]\<rparr>"
  obtain es st2 where r: "GeminiEmbeddings_call prov ts ?st1 = (es, st2)"
    by (cases "GeminiEmbeddings_call prov ts ?st1") auto
  show ?case
  proof (cases i)
    case 0
    then show ?thesis using r by (simp add: Let_def)
  next
    case (Suc j)
    then have "j < length ts" using Cons.prems by simp
    then have "fst (GeminiEmbeddings_call prov ts ?st1) ! j =
       (case prov (length (embed_requests ?st1) + j) (ts ! j) of
          Inr values \<Rightarrow> values | Inl err \<Rightarrow> replicate embedding_dim 0)"
      by (rule Cons.IH)
    then show ?thesis using r Suc by (simp add: Let_def)
  qed
qed

text \<open>
  Claim C2, as amended. When the provider signals a rate limit on every attempt for a text,
  the ingestion adapter (\<open>GeminiEmbeddingFunction\<close>) makes exactly five attempts for it,
  waits \<open>30 * k\<close> seconds between attempt \<open>k\<close> and attempt \<open>k + 1\<close>, and gives the text up. An
  error of another kind ends the attempts for the text at once, at whichever attempt it
  comes: after \<open>k < 5\<close> rate-limited attempts and such an error, the text is given up with
  \<open>k + 1\<close> requests sent. The batch call raises \<open>RuntimeError\<close> exactly when a text of the
  batch was given up, wherever the text stands in the batch; so a batch holding a text
  whose every request fails raises. The pipeline adapter (\<open>GeminiEmbeddings\<close>) makes one
  attempt per text, never waits, and puts a zero vector of 768 components in the place of
  every text whose attempt failed, whatever the error; its result has one vector per text.
\<close>

theorem embedding_failure_handling:
  "((\<forall>n. \<exists>err. prov n tx = Inl err \<and> is_rate_limit err) \<longrightarrow>
      fst (embed_with_retry prov 5 0 tx st) = None \<and>
      embed_requests (snd (embed_with_retry prov 5 0 tx st)) = embed_requests st @ replicate 5 tx \<and>
      take 4 (drop (length (embed_sleeps st)) (embed_sleeps (snd (embed_with_retry prov 5 0 tx st))))
        = [30, 60, 90, 120]) \<and>
   (k < 5 \<and>
    (\<forall>i<k. \<exists>err. prov (length (embed_requests st) + i) tx = Inl err \<and> is_rate_limit err) \<and>
    (\<exists>err. prov (length (embed_requests st) + k) tx = Inl err \<and> \<not> is_rate_limit err) \<longrightarrow>
      embed_with_retry prov 5 0 tx st =
        (None, st\<lparr>embed_requests := embed_requests st @ replicate (k + 1) tx,
                   embed_sleeps := embed_sleeps st @ map (\<lambda>i. 30 * (int i + 1)) [0..<k]\<rparr>)) \<and>
   (fst (GeminiEmbeddingFunction_call prov input st) = Inl ''Some embeddings failed. Please retry.'' \<longleftrightarrow>
      (\<exists>i<length input.
         fst (embed_with_retry prov 5 0 (input ! i) (snd (embed_each prov (take i input) st))) = None)) \<and>
   (tx \<in> set input \<and> (\<forall>n. \<exists>err. prov n tx = Inl err) \<longrightarrow>
      fst (GeminiEmbeddingFunction_call prov input st) = Inl ''Some embeddings failed. Please retry.'') \<and>
   length (fst (GeminiEmbeddings_call prov ts st)) = length ts \<and>
   embed_requests (snd (GeminiEmbeddings_call prov ts st)) = embed_requests st @ ts \<and>
   embed_sleeps (snd (GeminiEmbeddings_call prov ts st)) = embed_sleeps st \<and>
   (\<forall>i<length ts.
      fst (GeminiEmbeddings_call prov ts st) ! i =
        (case prov (length (embed_requests st) + i) (ts ! i) of
           Inr values \<Rightarrow> values
         | Inl err \<Rightarrow> replicate embedding_dim 0))"
proof (intro conjI impI allI)
  assume rl: "\<forall>n. \<exists>err. prov n tx = Inl err \<and> is_rate_limit err"
  have e: "embed_with_retry prov 5 0 tx st =
           (None, st\<lparr>embed_requests := embed_requests st @ replicate (5 - 0) tx,
                      embed_sleeps := embed_sleeps st @ map (\<lambda>i. 30 * (int i + 1)) [0..<5]\<rparr>)"
    using rl by (intro embed_with_retry_exhausted) blast
  have u: "[0..<5] = [0, 1, 2, 3, 4]" by (simp add: upt_rec)
  show "fst (embed_with_retry prov 5 0 tx st) = None" unfolding e by simp
  show "embed_requests (snd (embed_with_retry prov 5 0 tx st)) = embed_requests st @ replicate 5 tx"
    unfolding e by simp
  show "take 4 (drop (length (embed_sleeps st)) (embed_sleeps (snd (embed_with_retry prov 5 0 tx st))))
        = [30, 60, 90, 120]"
    unfolding e u by simp
next
  assume h: "k < 5 \<and>
    (\<forall>i<k. \<exists>err. prov (length (embed_requests st) + i) tx = Inl err \<and> is_rate_limit err) \<and>
    (\<exists>err. prov (length (embed_requests st) + k) tx = Inl err \<and> \<not> is_rate_limit err)"
  have "embed_with_retry prov 5 0 tx st =
        (None, st\<lparr>embed_requests := embed_requests st @ replicate (k + 1) tx,
                   embed_sleeps := embed_sleeps st @ map (\<lambda>i. 30 * (int i + 1)) [0..<0 + k]\<rparr>)"
    using h by (intro embed_with_retry_error_after) auto
  then show "embed_with_retry prov 5 0 tx st =
        (None, st\<lparr>embed_requests := embed_requests st @ replicate (k + 1) tx,
                   embed_sleeps := embed_sleeps st @ map (\<lambda>i. 30 * (int i + 1)) [0..<k]\<rparr>)"
    by simp
next
  show "fst (GeminiEmbeddingFunction_call prov input st) = Inl ''Some embeddings failed. Please retry.'' \<longleftrightarrow>
      (\<exists>i<length input.
         fst (embed_with_retry prov 5 0 (input ! i) (snd (embed_each prov (take i input) st))) = None)"
    by (rule GeminiEmbeddingFunction_call_raises)
next
  assume "tx \<in> set input \<and> (\<forall>n. \<exists>err. prov n tx = Inl err)"
  then show "fst (GeminiEmbeddingFunction_call prov input st) = Inl ''Some embeddings failed. Please retry.''"
    by (intro GeminiEmbeddingFunction_call_failing_text) blast+
next
  show "length (fst (GeminiEmbeddings_call prov ts st)) = length ts"
    using GeminiEmbeddings_call_log by blast
  show "embed_requests (snd (GeminiEmbeddings_call prov ts st)) = embed_requests st @ ts"
    using GeminiEmbeddings_call_log by blast
  show "embed_sleeps (snd (GeminiEmbeddings_call prov ts st)) = embed_sleeps st"
    using GeminiEmbeddings_call_log by blast
next
  fix i assume "i < length ts"
  then show "fst (GeminiEmbeddings_call prov ts st) ! i =
        (case prov (length (embed_requests st) + i) (ts ! i) of
           Inr values \<Rightarrow> values
         | Inl err \<Rightarrow> replicate embedding_dim 0)"
    by (rule GeminiEmbeddings_call_nth)
qed

lemma rate_limit_exhausted: "is_rate_limit ''429 RESOURCE_EXHAUSTED''"
  by code_simp

lemma not_rate_limit_500: "\<not> is_rate_limit ''500 internal error''"
  by code_simp

theorem embedding_failure_handling_witness:
  "(\<forall>n. \<exists>err. always_rate_limited n ''x'' = Inl err \<and> is_rate_limit err) \<and>
   embed_requests (snd (embed_with_retry always_rate_limited 5 0 ''x'' embed_state0))
     = [''x'', ''x'', ''x'', ''x'', ''x''] \<and>
   (2::nat) < 5 \<and>
   (\<exists>err. limited_then_broken (length (embed_requests embed_state0) + 0) ''x'' = Inl err \<and>
          is_rate_limit err) \<and>
   (\<exists>err. limited_then_broken (length (embed_requests embed_state0) + 1) ''x'' = Inl err \<and>
          is_rate_limit err) \<and>
   (\<exists>err. limited_then_broken (length (embed_requests embed_state0) + 2) ''x'' = Inl err \<and>
          \<not> is_rate_limit err) \<and>
   embed_with_retry limited_then_broken 5 0 ''x'' embed_state0
     = (None, \<lparr>embed_requests = [''x'', ''x'', ''x''], embed_sleeps = [30, 60]\<rparr>) \<and>
   ''bad'' \<in> set [''ok'', ''bad''] \<and>
   (\<forall>n. \<exists>err. bad_only n ''bad'' = Inl err) \<and>
   fst (GeminiEmbeddingFunction_call bad_only [''ok'', ''bad''] embed_state0)
     = Inl ''Some embeddings failed. Please retry.'' \<and>
   (\<exists>i<length [''ok'', ''bad''].
      fst (embed_with_retry bad_only 5 0 ([''ok'', ''bad''] ! i)
             (snd (embed_each bad_only (take i [''ok'', ''bad'']) embed_state0))) = None) \<and>
   fst (GeminiEmbeddingFunction_call bad_only [''ok'', ''fine''] embed_state0) = Inr [[1], [1]] \<and>
   GeminiEmbeddings_call always_broken [''x'', ''y''] embed_state0
     = ([replicate embedding_dim 0, replicate embedding_dim 0],
        \<lparr>embed_requests = [''x'', ''y''], embed_sleeps = []\<rparr>)"
proof -
  have h1: "\<forall>n. \<exists>err. always_rate_limited n ''x'' = Inl err \<and> is_rate_limit err"
    by (simp add: always_rate_limited_def rate_limit_exhausted)
  have h2: "\<forall>i<2. \<exists>err. limited_then_broken (length (embed_requests embed_state0) + i) ''x'' = Inl err \<and>
                  is_rate_limit err"
    by (simp add: limited_then_broken_def embed_state0_def rate_limit_exhausted)
  have h3: "\<exists>err. limited_then_broken (length (embed_requests embed_state0) + 2) ''x'' = Inl err \<and>
          \<not> is_rate_limit err"
    by (simp add: limited_then_broken_def embed_state0_def not_rate_limit_500)
  have h20: "\<exists>err. limited_then_broken (length (embed_requests embed_state0) + 0) ''x'' = Inl err \<and>
          is_rate_limit err"
    by (simp add: limited_then_broken_def embed_state0_def rate_limit_exhausted)
  have h21: "\<exists>err. limited_then_broken (length (embed_requests embed_state0) + 1) ''x'' = Inl err \<and>
          is_rate_limit err"
    by (simp add: limited_then_broken_def embed_state0_def rate_limit_exhausted)
  have h4: "''bad'' \<in> set [''ok'', ''bad'']" by simp
  have h5: "\<forall>n. \<exists>err. bad_only n ''bad'' = Inl err" by (simp add: bad_only_def)
  have k: "(2::nat) < 5" by simp
  note t1 = embedding_failure_handling[of always_rate_limited "''x''" embed_state0]
  note t2 = embedding_failure_handling[of limited_then_broken "''x''" embed_state0 2]
  note t3 = embedding_failure_handling[of bad_only "''bad''" embed_state0 _ "[''ok'', ''bad'']"]
  have "embed_requests (snd (embed_with_retry always_rate_limited 5 0 ''x'' embed_state0))
        = embed_requests embed_state0 @ replicate 5 ''x''"
    using t1 h1 by blast
  then have a: "embed_requests (snd (embed_with_retry always_rate_limited 5 0 ''x'' embed_state0))
     = [''x'', ''x'', ''x'', ''x'', ''x'']"
    by (simp add: embed_state0_def numeral_eq_Suc)
  have "embed_with_retry limited_then_broken 5 0 ''x'' embed_state0
        = (None, embed_state0\<lparr>embed_requests := embed_requests embed_state0 @ replicate (2 + 1) ''x'',
                   embed_sleeps := embed_sleeps embed_state0 @ map (\<lambda>i. 30 * (int i + 1)) [0..<2]\<rparr>)"
    using t2 k h2 h3 by blast
  then have b: "embed_with_retry limited_then_broken 5 0 ''x'' embed_state0
     = (None, \<lparr>embed_requests = [''x'', ''x'', ''x''], embed_sleeps = [30, 60]\<rparr>)"
    by (simp add: embed_state0_def numeral_eq_Suc upt_rec)
  have c: "fst (GeminiEmbeddingFunction_call bad_only [''ok'', ''bad''] embed_state0)
     = Inl ''Some embeddings failed. Please retry.''"
    using t3 h4 h5 by blast
  then have c': "\<exists>i<length [''ok'', ''bad''].
      fst (embed_with_retry bad_only 5 0 ([''ok'', ''bad''] ! i)
             (snd (embed_each bad_only (take i [''ok'', ''bad'']) embed_state0))) = None"
    using t3 by blast
  have c'': "fst (GeminiEmbeddingFunction_call bad_only [''ok'', ''fine''] embed_state0) = Inr [[1], [1]]"
    by code_simp
  have d: "GeminiEmbeddings_call always_broken [''x'', ''y''] embed_state0
     = ([replicate embedding_dim 0, replicate embedding_dim 0],
        \<lparr>embed_requests = [''x'', ''y''], embed_sleeps = []\<rparr>)"
    by (simp add: always_broken_def embed_state0_def Let_def)
  show ?thesis using h1 a k h20 h21 h3 b h4 h5 c c' c'' d by blast
qed

text \<open>
  Claim C2 as stated fails on both adapters: under rate limiting on every attempt the
  adapter that retries five times ends by raising, and the adapter that substitutes zero
  vectors makes one attempt, not five.
\<close>

theorem embedding_failure_handling_counterexample:
  "GeminiEmbeddingFunction_call always_rate_limited [''x''] embed_state0
     = (Inl ''Some embeddings failed. Please retry.'',
        \<lparr>embed_requests = [''x'', ''x'', ''x'', ''x'', ''x''],
         embed_sleeps = [30, 60, 90, 120, 150]\<rparr>) \<and>
   snd (GeminiEmbeddings_call always_rate_limited [''x''] embed_state0)
     = \<lparr>embed_requests = [''x''], embed_sleeps = []\<rparr>"
  by code_simp

section \<open>Verification: retrieval agent\<close>

lemma sublist_after: "sublist xs ys \<Longrightarrow> sublist xs (ps @ ys)"
  unfolding sublist_def by (metis append.assoc)

lemma suggestions_in_suffix:
  "sublist ''Try rephrasing your question'' no_context_suffix \<and>
   sublist ''Contact the relevant administrative office'' no_context_suffix \<and>
   sublist ''Check the university website'' no_context_suffix"
  by code_simp

text \<open>
  Claim C3. When retrieval returns no passage, \<open>QAAgent.answer\<close> returns the fixed apology
  built around the literal query text, which suggests rephrasing, contacting the office and
  checking the website, with an empty list of sources, and leaves the state of the
  generation adapter as it was: no call of \<open>generate\<close> and no request to the provider.
\<close>

theorem QAAgent_answer_no_context:
  assumes r: "QAAgent_retrieve qa q document_filter = Inr results"
    and e: "documents results = []"
  shows "QAAgent_answer qa client q history document_filter st =
           (\<lparr>answer = Some (no_context_prefix @ q @ no_context_suffix), sources = Some [],
             context_chunks = Some [],
             metadata = Some (QAMetadata 0 (distances results))\<rparr>, st) \<and>
         sublist q (no_context_response q) \<and>
         sublist ''I apologize'' (no_context_response q) \<and>
         sublist ''Try rephrasing your question'' (no_context_response q) \<and>
         sublist ''Contact the relevant administrative office'' (no_context_response q) \<and>
         sublist ''Check the university website'' (no_context_response q)"
proof (intro conjI)
  show "QAAgent_answer qa client q history document_filter st =
           (\<lparr>answer = Some (no_context_prefix @ q @ no_context_suffix), sources = Some [],
             context_chunks = Some [],
             metadata = Some (QAMetadata 0 (distances results))\<rparr>, st)"
    by (simp add: QAAgent_answer_def r e Let_def no_context_response_def)
  show "sublist q (no_context_response q)"
    unfolding no_context_response_def by (rule sublist_mid)
  have "prefix ''I apologize'' no_context_prefix" by code_simp
  then obtain rest where "no_context_prefix = ''I apologize'' @ rest" unfolding prefix_def by blast
  then have "no_context_response q = [] @ ''I apologize'' @ (rest @ q @ no_context_suffix)"
    by (simp add: no_context_response_def)
  then show "sublist ''I apologize'' (no_context_response q)"
    using sublist_mid[of "''I apologize''" "[]" "rest @ q @ no_context_suffix"] by simp
  show "sublist ''Try rephrasing your question'' (no_context_response q)"
    unfolding no_context_response_def
    using suggestions_in_suffix by (intro sublist_after) blast
  show "sublist ''Contact the relevant administrative office'' (no_context_response q)"
    unfolding no_context_response_def
    using suggestions_in_suffix by (intro sublist_after) blast
  show "sublist ''Check the university website'' (no_context_response q)"
    unfolding no_context_response_def
    using suggestions_in_suffix by (intro sublist_after) blast
qed

lemma empty_qa_retrieve:
  "QAAgent_retrieve empty_qa q None = Inr empty_retrieval"
  by (simp add: QAAgent_retrieve_def VectorStore_query_def empty_qa_def empty_index_def
        first_or_empty_def empty_retrieval_def)

theorem QAAgent_answer_no_context_witness:
  "QAAgent_retrieve empty_qa ''When is the deadline?'' None = Inr empty_retrieval \<and>
   documents empty_retrieval = [] \<and>
   QAAgent_answer empty_qa maybe_llm ''When is the deadline?'' [] None llm_state0 =
     (\<lparr>answer = Some (no_context_prefix @ ''When is the deadline?'' @ no_context_suffix),
       sources = Some [], context_chunks = Some [], metadata = Some (QAMetadata 0 [])\<rparr>,
      llm_state0) \<and>
   sublist ''When is the deadline?'' (no_context_response ''When is the deadline?'')"
proof -
  have e: "documents empty_retrieval = []" by (simp add: empty_retrieval_def)
  have d: "distances empty_retrieval = []" by (simp add: empty_retrieval_def)
  show ?thesis
    using QAAgent_answer_no_context[OF empty_qa_retrieve e, of maybe_llm "''When is the deadline?''" "[]" llm_state0]
      empty_qa_retrieve[of "''When is the deadline?''"] e
    unfolding d by blast
qed

section \<open>Verification: memory tiers and the cache at the entry point\<close>

lemma py_suffix_keeps_last:
  assumes m: "0 \<le> m" and ne: "xs \<noteq> []" and len: "int (length xs) > m"
  shows "py_suffix (- m) xs \<noteq> [] \<and> last (py_suffix (- m) xs) = last xs"
proof (cases "m = 0")
  case True
  then show ?thesis using ne by (simp add: py_suffix_def)
next
  case False
  then have neg: "\<not> 0 \<le> - m" using m by simp
  have k: "nat (int (length xs) + - m) < length xs" using m False len by simp
  show ?thesis unfolding py_suffix_def using neg k by (simp add: last_drop)
qed

lemma SessionMemory_add_turn_last:
  assumes "0 \<le> max_turns mem"
  shows "\<exists>ts. SessionMemory_add_turn mem sessions sid q r now sid = Some ts \<and> ts \<noteq> [] \<and>
              last ts = \<lparr>turn_user = q, turn_assistant = r, turn_timestamp = now\<rparr>"
proof -
  let ?turns = "(case sessions sid of None \<Rightarrow> [] | Some ts \<Rightarrow> ts) @
                  [\<lparr>turn_user = q, turn_assistant = r, turn_timestamp = now\<rparr>]"
  show ?thesis
  proof (cases "int (length ?turns) > max_turns mem")
    case True
    have "py_suffix (- max_turns mem) ?turns \<noteq> [] \<and>
          last (py_suffix (- max_turns mem) ?turns) = last ?turns"
      by (rule py_suffix_keeps_last[OF assms _ True]) simp
    then show ?thesis using True by (simp add: SessionMemory_add_turn_def Let_def)
  next
    case False
    then show ?thesis by (simp add: SessionMemory_add_turn_def Let_def)
  qed
qed

lemma process_query_tiers:
  "session_tier (snd (process_query orch sv q df py_now db_now b)) =
     SessionMemory_add_turn (svc_session_memory sv) (session_tier b) (orch_session_id orch) q
       (res_answer (fst (process_query orch sv q df py_now db_now b))) py_now \<and>
   (\<exists>chunks. conv_rows (durable_tier (snd (process_query orch sv q df py_now db_now b))) =
      conv_rows (durable_tier b) @
      [\<lparr>conv_id = conv_seq (durable_tier b) + 1, conv_session_id = orch_session_id orch,
        conv_user_id = orch_user_id orch, conv_query = q,
        conv_response = res_answer (fst (process_query orch sv q df py_now db_now b)),
        conv_intent = Some (res_intent (fst (process_query orch sv q df py_now db_now b))),
        conv_context_chunks = chunks, conv_timestamp = db_now\<rparr>])"
  by (simp add: process_query_def Let_def split_beta ConversationMemory_add_turn_def)

lemma handle_question_hit:
  assumes "q \<noteq> []"
    and "fst (FAQCache_get fc (faq s) q (get_py_now clk) (get_db_now clk)) = Some r" "r \<noteq> []"
  shows "handle_question fc sv q clk s =
           s\<lparr>chat_history := chat_history s @
                 [\<lparr>role = ''user'', content = q, msg_sources = None\<rparr>,
                  \<lparr>role = ''assistant'', content = r, msg_sources = Some []\<rparr>],
              faq := snd (FAQCache_get fc (faq s) q (get_py_now clk) (get_db_now clk))\<rparr>"
  using assms by (simp add: handle_question_def Let_def split_beta)

lemma handle_question_miss:
  assumes "q \<noteq> []"
    and "fst (FAQCache_get fc (faq s) q (get_py_now clk) (get_db_now clk)) = None \<or>
         fst (FAQCache_get fc (faq s) q (get_py_now clk) (get_db_now clk)) = Some []"
  shows "app_backend (handle_question fc sv q clk s) =
           snd (process_query
                  (case orchestrator s of
                     None \<Rightarrow> create_orchestrator (app_session_id s) (Some (username s))
                   | Some existing \<Rightarrow> existing)
                  sv q None (turn_py_now clk) (turn_db_now clk) (app_backend s))"
  using assms by (auto simp: handle_question_def Let_def split_beta)

lemma after_first_eval:
  "(let s = after_first in
      chat_history s =
        [\<lparr>role = ''user'', content = ''Fees?'', msg_sources = None\<rparr>,
         \<lparr>role = ''assistant'', content = ''Due on May 1.'',
          msg_sources = Some [\<lparr>src_file = MStr ''handbook.pdf'', src_document_type = MStr ''general'',
                               src_page = Some (MInt 3)\<rparr>]\<rparr>] \<and>
      faq s = \<lparr>rows = [new_row 1 ''fees?'' ''Fees?'' ''Due on May 1.'' 12], seq = 1\<rparr> \<and>
      session_tier (app_backend s) ''s1'' =
        Some [\<lparr>turn_user = ''Fees?'', turn_assistant = ''Due on May 1.'', turn_timestamp = 11\<rparr>] \<and>
      durable_tier (app_backend s) =
        \<lparr>conv_rows =
           [\<lparr>conv_id = 1, conv_session_id = ''s1'', conv_user_id = Some ''alice'',
             conv_query = ''Fees?'', conv_response = ''Due on May 1.'', conv_intent = Some ''qa'',
             conv_context_chunks = ''Fees are due May 1'', conv_timestamp = 11\<rparr>],
         conv_seq = 1\<rparr> \<and>
      generate_calls (llm_log (app_backend s)) = 2)"
  by code_simp

lemma after_first_faq: "faq after_first = \<lparr>rows = [new_row 1 ''fees?'' ''Fees?'' ''Due on May 1.'' 12], seq = 1\<rparr>"
  using after_first_eval by (simp add: Let_def)

lemma after_first_history:
  "chat_history after_first =
        [\<lparr>role = ''user'', content = ''Fees?'', msg_sources = None\<rparr>,
         \<lparr>role = ''assistant'', content = ''Due on May 1.'',
          msg_sources = Some [\<lparr>src_file = MStr ''handbook.pdf'', src_document_type = MStr ''general'',
                               src_page = Some (MInt 3)\<rparr>]\<rparr>]"
  using after_first_eval by (simp add: Let_def)

lemma after_first_session:
  "session_tier (app_backend after_first) ''s1'' =
        Some [\<lparr>turn_user = ''Fees?'', turn_assistant = ''Due on May 1.'', turn_timestamp = 11\<rparr>]"
  using after_first_eval by (simp add: Let_def)

lemma after_first_durable:
  "map conv_query (conv_rows (durable_tier (app_backend after_first))) = [''Fees?'']"
  using after_first_eval by (simp add: Let_def)

lemma after_first_hit:
  "fst (FAQCache_get demo_cache (faq after_first) ''fees?'' (get_py_now readings2) (get_db_now readings2))
   = Some ''Due on May 1.''"
  unfolding after_first_faq by code_simp

lemma after_first_miss:
  "fst (FAQCache_get demo_cache (faq app_state0) ''Fees?'' (get_py_now readings1) (get_db_now readings1))
   = None"
  by code_simp

text \<open>
  Claim C1, as amended. Every query that reaches \<open>process_query\<close> is recorded in both
  tiers: with a non-negative cap on the session window (\<open>MAX_CONVERSATION_HISTORY\<close>), the
  session's list ends with the turn (query, answer), and the durable table gains one row
  with the query, the answer and the intent. At the entry point, a query that misses the
  response cache is handed to \<open>process_query\<close>, so both tiers record it. A query answered
  from the response cache leaves both tiers and the generation adapter as they were: the
  state after it is the state before it with the two messages (the question, and the
  cached text with an empty list of sources) added to the chat history and, in the cache
  table, \<open>hit_count\<close> raised by one and \<open>last_accessed\<close> set to the time of the lookup in
  the entry of the query's hash; nothing else changes.
\<close>

theorem memory_tiers_recorded:
  assumes cap: "0 \<le> max_turns (svc_session_memory sv)"
  shows "(\<exists>ts. session_tier (snd (process_query orch sv q df py_now db_now b)) (orch_session_id orch)
                 = Some ts \<and> ts \<noteq> [] \<and>
               last ts = \<lparr>turn_user = q,
                           turn_assistant = res_answer (fst (process_query orch sv q df py_now db_now b)),
                           turn_timestamp = py_now\<rparr>) \<and>
         (\<exists>chunks. conv_rows (durable_tier (snd (process_query orch sv q df py_now db_now b))) =
            conv_rows (durable_tier b) @
            [\<lparr>conv_id = conv_seq (durable_tier b) + 1, conv_session_id = orch_session_id orch,
              conv_user_id = orch_user_id orch, conv_query = q,
              conv_response = res_answer (fst (process_query orch sv q df py_now db_now b)),
              conv_intent = Some (res_intent (fst (process_query orch sv q df py_now db_now b))),
              conv_context_chunks = chunks, conv_timestamp = db_now\<rparr>]) \<and>
         (uq \<noteq> [] \<and>
          (fst (FAQCache_get fc (faq s) uq (get_py_now clk) (get_db_now clk)) = None \<or>
           fst (FAQCache_get fc (faq s) uq (get_py_now clk) (get_db_now clk)) = Some []) \<longrightarrow>
            app_backend (handle_question fc sv uq clk s) =
              snd (process_query
                     (case orchestrator s of
                        None \<Rightarrow> create_orchestrator (app_session_id s) (Some (username s))
                      | Some existing \<Rightarrow> existing)
                     sv uq None (turn_py_now clk) (turn_db_now clk) (app_backend s))) \<and>
         (uq \<noteq> [] \<and>
          (\<exists>r. fst (FAQCache_get fc (faq s) uq (get_py_now clk) (get_db_now clk)) = Some r \<and> r \<noteq> []) \<longrightarrow>
            app_backend (handle_question fc sv uq clk s) = app_backend s) \<and>
         (uq \<noteq> [] \<and>
          fst (FAQCache_get fc (faq s) uq (get_py_now clk) (get_db_now clk)) = Some r \<and> r \<noteq> [] \<longrightarrow>
            handle_question fc sv uq clk s =
              s\<lparr>chat_history := chat_history s @
                    [\<lparr>role = ''user'', content = uq, msg_sources = None\<rparr>,
                     \<lparr>role = ''assistant'', content = r, msg_sources = Some []\<rparr>],
                 faq := (faq s)
                    \<lparr>rows := map (\<lambda>x. if query_hash x = hash_query fc uq
                                       then x\<lparr>hit_count := hit_count x + 1,
                                              last_accessed := get_db_now clk\<rparr>
                                       else x) (rows (faq s))\<rparr>\<rparr>)"
proof (intro conjI impI)
  show "\<exists>ts. session_tier (snd (process_query orch sv q df py_now db_now b)) (orch_session_id orch)
                 = Some ts \<and> ts \<noteq> [] \<and>
               last ts = \<lparr>turn_user = q,
                           turn_assistant = res_answer (fst (process_query orch sv q df py_now db_now b)),
                           turn_timestamp = py_now\<rparr>"
    using process_query_tiers[of orch sv q df py_now db_now b]
      SessionMemory_add_turn_last[OF cap, of "session_tier b" "orch_session_id orch" q
        "res_answer (fst (process_query orch sv q df py_now db_now b))" py_now]
    by simp
  show "\<exists>chunks. conv_rows (durable_tier (snd (process_query orch sv q df py_now db_now b))) =
            conv_rows (durable_tier b) @
            [\<lparr>conv_id = conv_seq (durable_tier b) + 1, conv_session_id = orch_session_id orch,
              conv_user_id = orch_user_id orch, conv_query = q,
              conv_response = res_answer (fst (process_query orch sv q df py_now db_now b)),
              conv_intent = Some (res_intent (fst (process_query orch sv q df py_now db_now b))),
              conv_context_chunks = chunks, conv_timestamp = db_now\<rparr>]"
    using process_query_tiers[of orch sv q df py_now db_now b] by blast
next
  assume "uq \<noteq> [] \<and>
          (fst (FAQCache_get fc (faq s) uq (get_py_now clk) (get_db_now clk)) = None \<or>
           fst (FAQCache_get fc (faq s) uq (get_py_now clk) (get_db_now clk)) = Some [])"
  then show "app_backend (handle_question fc sv uq clk s) =
              snd (process_query
                     (case orchestrator s of
                        None \<Rightarrow> create_orchestrator (app_session_id s) (Some (username s))
                      | Some existing \<Rightarrow> existing)
                     sv uq None (turn_py_now clk) (turn_db_now clk) (app_backend s))"
    using handle_question_miss[of uq fc s clk sv] by blast
next
  assume "uq \<noteq> [] \<and>
          (\<exists>r. fst (FAQCache_get fc (faq s) uq (get_py_now clk) (get_db_now clk)) = Some r \<and> r \<noteq> [])"
  then obtain r' where "uq \<noteq> []"
     "fst (FAQCache_get fc (faq s) uq (get_py_now clk) (get_db_now clk)) = Some r'" "r' \<noteq> []"
    by blast
  then have "handle_question fc sv uq clk s =
           s\<lparr>chat_history := chat_history s @
                 [\<lparr>role = ''user'', content = uq, msg_sources = None\<rparr>,
                  \<lparr>role = ''assistant'', content = r', msg_sources = Some []\<rparr>],
              faq := snd (FAQCache_get fc (faq s) uq (get_py_now clk) (get_db_now clk))\<rparr>"
    by (rule handle_question_hit)
  then show "app_backend (handle_question fc sv uq clk s) = app_backend s" by simp
next
  assume h: "uq \<noteq> [] \<and>
          fst (FAQCache_get fc (faq s) uq (get_py_now clk) (get_db_now clk)) = Some r \<and> r \<noteq> []"
  then have "handle_question fc sv uq clk s =
           s\<lparr>chat_history := chat_history s @
                 [\<lparr>role = ''user'', content = uq, msg_sources = None\<rparr>,
                  \<lparr>role = ''assistant'', content = r, msg_sources = Some []\<rparr>],
              faq := snd (FAQCache_get fc (faq s) uq (get_py_now clk) (get_db_now clk))\<rparr>"
    using handle_question_hit[of uq fc s clk r sv] by blast
  then show "handle_question fc sv uq clk s =
              s\<lparr>chat_history := chat_history s @
                    [\<lparr>role = ''user'', content = uq, msg_sources = None\<rparr>,
                     \<lparr>role = ''assistant'', content = r, msg_sources = Some []\<rparr>],
                 faq := (faq s)
                    \<lparr>rows := map (\<lambda>x. if query_hash x = hash_query fc uq
                                       then x\<lparr>hit_count := hit_count x + 1,
                                              last_accessed := get_db_now clk\<rparr>
                                       else x) (rows (faq s))\<rparr>\<rparr>"
    using h FAQCache_get_touches[of fc "faq s" uq "get_py_now clk" "get_db_now clk" r] by simp
qed

theorem memory_tiers_recorded_witness:
  "0 \<le> max_turns (svc_session_memory demo_services) \<and>
   ''Fees?'' \<noteq> [] \<and>
   fst (FAQCache_get demo_cache (faq app_state0) ''Fees?'' (get_py_now readings1) (get_db_now readings1))
     = None \<and>
   app_backend after_first =
     snd (process_query (create_orchestrator ''s1'' (Some ''alice'')) demo_services ''Fees?'' None
            11 11 backend0) \<and>
   session_tier (app_backend after_first) ''s1'' =
     Some [\<lparr>turn_user = ''Fees?'', turn_assistant = ''Due on May 1.'', turn_timestamp = 11\<rparr>] \<and>
   map conv_query (conv_rows (durable_tier (app_backend after_first))) = [''Fees?''] \<and>
   faq after_first =
     \<lparr>rows = [\<lparr>row_id = 1, query_hash = ''fees?'', query = ''Fees?'', response = ''Due on May 1.'',
               hit_count = 1, created_at = 12, last_accessed = 12\<rparr>],
      seq = 1\<rparr> \<and>
   ''fees?'' \<noteq> [] \<and>
   fst (FAQCache_get demo_cache (faq after_first) ''fees?'' (get_py_now readings2) (get_db_now readings2))
     = Some ''Due on May 1.'' \<and>
   app_backend after_second = app_backend after_first \<and>
   after_second =
     after_first
       \<lparr>chat_history := chat_history after_first @
           [\<lparr>role = ''user'', content = ''fees?'', msg_sources = None\<rparr>,
            \<lparr>role = ''assistant'', content = ''Due on May 1.'', msg_sources = Some []\<rparr>],
        faq :=
          \<lparr>rows = [\<lparr>row_id = 1, query_hash = ''fees?'', query = ''Fees?'',
                    response = ''Due on May 1.'', hit_count = 2, created_at = 12,
                    last_accessed = 20\<rparr>],
           seq = 1\<rparr>\<rparr>"
proof -
  have cap: "0 \<le> max_turns (svc_session_memory demo_services)" by (simp add: demo_services_def)
  note t1 = memory_tiers_recorded[OF cap, of _ _ _ _ _ _ "''Fees?''" demo_cache app_state0 readings1]
  note t2 = memory_tiers_recorded[OF cap, of _ _ _ _ _ _ "''fees?''" demo_cache after_first readings2
              "''Due on May 1.''"]
  have "app_backend (handle_question demo_cache demo_services ''Fees?'' readings1 app_state0) =
        snd (process_query
               (case orchestrator app_state0 of
                  None \<Rightarrow> create_orchestrator (app_session_id app_state0) (Some (username app_state0))
                | Some existing \<Rightarrow> existing)
               demo_services ''Fees?'' None (turn_py_now readings1) (turn_db_now readings1)
               (app_backend app_state0))"
    using t1 after_first_miss by blast
  then have a: "app_backend after_first =
     snd (process_query (create_orchestrator ''s1'' (Some ''alice'')) demo_services ''Fees?'' None
            11 11 backend0)"
    by (simp add: after_first_def app_state0_def readings1_def)
  have "app_backend (handle_question demo_cache demo_services ''fees?'' readings2 after_first)
        = app_backend after_first"
    using t2 after_first_hit by blast
  then have b: "app_backend after_second = app_backend after_first"
    by (simp add: after_second_def)
  have ne: "''fees?'' \<noteq> []" "''Due on May 1.'' \<noteq> []" by simp_all
  have "handle_question demo_cache demo_services ''fees?'' readings2 after_first =
          after_first
            \<lparr>chat_history := chat_history after_first @
                [\<lparr>role = ''user'', content = ''fees?'', msg_sources = None\<rparr>,
                 \<lparr>role = ''assistant'', content = ''Due on May 1.'', msg_sources = Some []\<rparr>],
             faq := (faq after_first)
                \<lparr>rows := map (\<lambda>x. if query_hash x = hash_query demo_cache ''fees?''
                                   then x\<lparr>hit_count := hit_count x + 1,
                                          last_accessed := get_db_now readings2\<rparr>
                                   else x) (rows (faq after_first))\<rparr>\<rparr>"
    using t2 after_first_hit ne by blast
  moreover have "(faq after_first)
                \<lparr>rows := map (\<lambda>x. if query_hash x = hash_query demo_cache ''fees?''
                                   then x\<lparr>hit_count := hit_count x + 1,
                                          last_accessed := get_db_now readings2\<rparr>
                                   else x) (rows (faq after_first))\<rparr>
        = \<lparr>rows = [\<lparr>row_id = 1, query_hash = ''fees?'', query = ''Fees?'',
                    response = ''Due on May 1.'', hit_count = 2, created_at = 12,
                    last_accessed = 20\<rparr>],
           seq = 1\<rparr>"
    unfolding after_first_faq by code_simp
  ultimately have c: "after_second =
     after_first
       \<lparr>chat_history := chat_history after_first @
           [\<lparr>role = ''user'', content = ''fees?'', msg_sources = None\<rparr>,
            \<lparr>role = ''assistant'', content = ''Due on May 1.'', msg_sources = Some []\<rparr>],
        faq :=
          \<lparr>rows = [\<lparr>row_id = 1, query_hash = ''fees?'', query = ''Fees?'',
                    response = ''Due on May 1.'', hit_count = 2, created_at = 12,
                    last_accessed = 20\<rparr>],
           seq = 1\<rparr>\<rparr>"
    unfolding after_second_def by simp
  have f1: "faq after_first =
     \<lparr>rows = [\<lparr>row_id = 1, query_hash = ''fees?'', query = ''Fees?'', response = ''Due on May 1.'',
               hit_count = 1, created_at = 12, last_accessed = 12\<rparr>],
      seq = 1\<rparr>"
    unfolding after_first_faq by (simp add: new_row_def)
  show ?thesis
    using cap after_first_miss a after_first_session after_first_durable f1 after_first_hit b c
    by simp
qed

text \<open>
  Claim C1 as stated fails: the second question below is answered from the response cache
  (the chat history shows the answer), and after it the session tier and the durable tier
  still hold the first turn only.
\<close>

theorem memory_tiers_recorded_counterexample:
  "map content (chat_history after_second) = [''Fees?'', ''Due on May 1.'', ''fees?'', ''Due on May 1.''] \<and>
   session_tier (app_backend after_second) ''s1'' =
     Some [\<lparr>turn_user = ''Fees?'', turn_assistant = ''Due on May 1.'', turn_timestamp = 11\<rparr>] \<and>
   map conv_query (conv_rows (durable_tier (app_backend after_second))) = [''Fees?'']"
proof -
  have eq: "handle_question demo_cache demo_services ''fees?'' readings2 after_first =
          after_first\<lparr>chat_history := chat_history after_first @
                 [\<lparr>role = ''user'', content = ''fees?'', msg_sources = None\<rparr>,
                  \<lparr>role = ''assistant'', content = ''Due on May 1.'', msg_sources = Some []\<rparr>],
              faq := snd (FAQCache_get demo_cache (faq after_first) ''fees?''
                            (get_py_now readings2) (get_db_now readings2))\<rparr>"
    by (rule handle_question_hit[OF _ after_first_hit]) simp_all
  have h: "chat_history after_second = chat_history after_first @
                 [\<lparr>role = ''user'', content = ''fees?'', msg_sources = None\<rparr>,
                  \<lparr>role = ''assistant'', content = ''Due on May 1.'', msg_sources = Some []\<rparr>]"
    unfolding after_second_def eq by simp
  have b: "app_backend after_second = app_backend after_first"
    unfolding after_second_def eq by simp
  show ?thesis
    unfolding h b after_first_history after_first_session after_first_durable by simp
qed

text \<open>
  Claim C10. When the entry point answers a question from the response cache, the
  assistant message it appends carries the cached text and an empty list of sources,
  whatever sources the answer had when it was generated.
\<close>

theorem cache_hit_sources_empty:
  assumes "q \<noteq> []"
    and "fst (FAQCache_get fc (faq s) q (get_py_now clk) (get_db_now clk)) = Some r"
    and "r \<noteq> []"
  shows "chat_history (handle_question fc sv q clk s) =
           chat_history s @
             [\<lparr>role = ''user'', content = q, msg_sources = None\<rparr>,
              \<lparr>role = ''assistant'', content = r, msg_sources = Some []\<rparr>]"
  using handle_question_hit[OF assms, of sv] by simp

theorem cache_hit_sources_empty_witness:
  "''fees?'' \<noteq> [] \<and>
   fst (FAQCache_get demo_cache (faq after_first) ''fees?'' (get_py_now readings2) (get_db_now readings2))
     = Some ''Due on May 1.'' \<and>
   ''Due on May 1.'' \<noteq> [] \<and>
   chat_history after_second =
     [\<lparr>role = ''user'', content = ''Fees?'', msg_sources = None\<rparr>,
      \<lparr>role = ''assistant'', content = ''Due on May 1.'',
       msg_sources = Some [\<lparr>src_file = MStr ''handbook.pdf'', src_document_type = MStr ''general'',
                            src_page = Some (MInt 3)\<rparr>]\<rparr>,
      \<lparr>role = ''user'', content = ''fees?'', msg_sources = None\<rparr>,
      \<lparr>role = ''assistant'', content = ''Due on May 1.'', msg_sources = Some []\<rparr>]"
proof -
  have n: "''fees?'' \<noteq> []" "''Due on May 1.'' \<noteq> []" by simp_all
  have "chat_history after_second = chat_history after_first @
             [\<lparr>role = ''user'', content = ''fees?'', msg_sources = None\<rparr>,
              \<lparr>role = ''assistant'', content = ''Due on May 1.'', msg_sources = Some []\<rparr>]"
    unfolding after_second_def
    by (rule cache_hit_sources_empty[OF n(1) after_first_hit n(2)])
  then show ?thesis using after_first_hit after_first_history by simp
qed

end
